theory Spec2Isabelle
  imports Main
begin

section \<open>Data model\<close>

text \<open>
  The chunker (\<^verbatim>\<open>document_processor/chunker.py\<close>) and the summarization pipeline
  (\<^verbatim>\<open>langgraph_pipeline/nodes.py\<close>, \<^verbatim>\<open>state.py\<close>, \<^verbatim>\<open>graph.py\<close>) work on Python
  dictionaries. Each dictionary shape is a record here; a key that two shapes share gets
  a prefix, since record fields of one theory live in one name space:
  \<^item> a page dictionary: keys \<^verbatim>\<open>page_number\<close> and \<^verbatim>\<open>text\<close> (the chunker reads no other key);
  \<^item> a page marker: keys \<^verbatim>\<open>page_number\<close>, \<^verbatim>\<open>start_pos\<close>, \<^verbatim>\<open>end_pos\<close>;
  \<^item> a chunk: the keys common to both chunk kinds, extended by \<^verbatim>\<open>page_number\<close> for a
    retrieval chunk and by \<^verbatim>\<open>page_range\<close> for a summary chunk.
  A Python \<^verbatim>\<open>str\<close> is a \<^typ>\<open>string\<close>, one \<^typ>\<open>char\<close> for one character of the
  Python string; \<^verbatim>\<open>len\<close> is \<^const>\<open>length\<close>. Python integers are \<^typ>\<open>int\<close>, except
  where the source takes them from \<^verbatim>\<open>len\<close> or \<^verbatim>\<open>enumerate\<close>, which are \<^typ>\<open>nat\<close>.
\<close>

record page =
  page_number :: int
  page_text :: string

record page_marker =
  marker_page_number :: int
  start_pos :: nat
  end_pos :: nat

record chunk =
  chunk_index :: nat
  chunk_text :: string
  char_count :: nat
  token_count :: nat
  page_numbers :: "int list"
  chunk_document_id :: "string option"
  chunk_type :: string

record rag_chunk = chunk +
  rag_page_number :: "int option"

record summary_chunk = chunk +
  page_range :: string

text \<open>
  \<^verbatim>\<open>DocumentState\<close> of \<^verbatim>\<open>state.py\<close>. The metadata dictionary is an association list
  from keys to printed values.
\<close>

type_synonym metadata = "(string \<times> string) list"

record DocumentState =
  document_id :: string
  document_metadata :: metadata
  large_chunks :: "summary_chunk list"
  total_chunks :: int
  chunk_summaries :: "string list"
  summaries_completed :: int
  final_summary :: string
  status :: string
  error_message :: "string option"

text \<open>A raised Python exception, with the text that \<^verbatim>\<open>str(e)\<close> gives.\<close>

datatype error = Exception string

section \<open>The distribute stage\<close>

text \<open>
  \<^verbatim>\<open>distribute_chunks\<close> (\<^verbatim>\<open>nodes.py\<close>, lines 9-20): four assignments to the state
  dictionary, in the order of the source, and no test of \<^verbatim>\<open>large_chunks\<close>.
\<close>

definition distribute_chunks :: "DocumentState \<Rightarrow> DocumentState" where
  "distribute_chunks state =
     state\<lparr>status := ''mapping'',
           total_chunks := int (length (large_chunks state)),
           chunk_summaries := [],
           summaries_completed := 0\<rparr>"

section \<open>Consolidating the pages\<close>

text \<open>
  The first loop of \<^verbatim>\<open>create_rag_chunks\<close> (\<^verbatim>\<open>chunker.py\<close>, lines 31-42), repeated
  word for word in \<^verbatim>\<open>create_summary_chunks\<close> (lines 103-114). It threads the buffer
  \<^verbatim>\<open>full_text\<close> and the list \<^verbatim>\<open>page_markers\<close>; both start empty. The separator
  \<^verbatim>\<open>"\n\n"\<close> is two line feeds, and \<^verbatim>\<open>end_pos\<close> is read after the separator is
  appended.
\<close>

fun combine_pages :: "page list \<Rightarrow> string \<Rightarrow> page_marker list \<Rightarrow> string \<times> page_marker list" where
  "combine_pages [] full_text page_markers = (full_text, page_markers)"
| "combine_pages (page # pages_data) full_text page_markers =
     (let page_start = length full_text;
          full_text' = full_text @ page_text page @ [CHR 0x0A, CHR 0x0A]
      in combine_pages pages_data full_text'
           (page_markers @
              [\<lparr>marker_page_number = page_number page,
                start_pos = page_start,
                end_pos = length full_text'\<rparr>]))"

section \<open>Searching the buffer\<close>

text \<open>
  Python's \<^verbatim>\<open>s.find(sub, start)\<close>: the lowest index \<open>i\<close> at or after \<open>start\<close> with
  \<^verbatim>\<open>s[i:i+len(sub)] == sub\<close>, or \<open>-1\<close>. A negative \<open>start\<close> counts from the end of
  \<open>s\<close> and is cut off at 0, as in a slice; a \<open>start\<close> beyond the end finds nothing, not
  even the empty string. \<open>find_at sub rest i\<close> scans \<open>rest\<close>, the part of \<open>s\<close> from
  index \<open>i\<close> on.
\<close>

fun find_at :: "string \<Rightarrow> string \<Rightarrow> nat \<Rightarrow> int" where
  "find_at sub [] i = (if sub = [] then int i else - 1)"
| "find_at sub (c # rest) i =
     (if take (length sub) (c # rest) = sub then int i else find_at sub rest (Suc i))"

definition py_find :: "string \<Rightarrow> string \<Rightarrow> int \<Rightarrow> int" where
  "py_find s sub start =
     (let n = int (length s);
          start' = (if start < 0 then max 0 (start + n) else start)
      in if start' > n then - 1 else find_at sub (drop (nat start') s) (nat start'))"

text \<open>
  The inner loop over the markers (lines 64-67 and 135-138): the page numbers of the
  markers that pass the overlap test, in marker order.
\<close>

definition spanned_pages :: "page_marker list \<Rightarrow> int \<Rightarrow> int \<Rightarrow> int list" where
  "spanned_pages page_markers chunk_start chunk_end =
     map marker_page_number
       (filter (\<lambda>marker. chunk_start < int (end_pos marker) \<and> chunk_end > int (start_pos marker))
          page_markers)"

section \<open>Counting tokens\<close>

text \<open>
  \<^verbatim>\<open>count_tokens\<close> (lines 7-10) calls the tiktoken library, which is not part of the
  repository: it is a parameter. \<^verbatim>\<open>encoding_for_model\<close> gives an encoding or raises;
  the encoding's \<^verbatim>\<open>encode\<close> gives the token list or raises. \<^verbatim>\<open>count_tokens\<close> has no
  handler of its own.
\<close>

type_synonym encoding = "string \<Rightarrow> error + nat list"
type_synonym tiktoken = "string \<Rightarrow> error + encoding"

definition count_tokens :: "tiktoken \<Rightarrow> string \<Rightarrow> string \<Rightarrow> error + nat" where
  "count_tokens encoding_for_model txt model =
     (case encoding_for_model model of
        Inl e \<Rightarrow> Inl e
      | Inr encode \<Rightarrow>
          (case encode txt of
             Inl e \<Rightarrow> Inl e
           | Inr tokens \<Rightarrow> Inr (length tokens)))"

section \<open>Printing integers\<close>

text \<open>What an f-string prints for an integer, and \<^verbatim>\<open>str.join\<close>.\<close>

fun show_nat :: "nat \<Rightarrow> string" where
  "show_nat n =
     (if n < 10 then [''0123456789'' ! n]
      else show_nat (n div 10) @ [''0123456789'' ! (n mod 10)])"

declare show_nat.simps [simp del]

definition show_int :: "int \<Rightarrow> string" where
  "show_int i = (if i < 0 then ''-'' @ show_nat (nat (- i)) else show_nat (nat i))"

fun py_join :: "string \<Rightarrow> string list \<Rightarrow> string" where
  "py_join sep [] = []"
| "py_join sep [x] = x"
| "py_join sep (x # y # ys) = x @ sep @ py_join sep (y # ys)"

section \<open>The two chunking passes\<close>

text \<open>
  The text splitter is langchain's \<^verbatim>\<open>RecursiveCharacterTextSplitter\<close>, not part of the
  repository: a parameter that takes \<^verbatim>\<open>chunk_size\<close>, \<^verbatim>\<open>chunk_overlap\<close> and the buffer
  and gives the segments, or raises.

  The second loop of \<^verbatim>\<open>create_rag_chunks\<close> (lines 55-80) threads \<^verbatim>\<open>idx\<close> and
  \<^verbatim>\<open>current_position\<close>. The value of \<^verbatim>\<open>find\<close> is used as it comes, also when it is
  \<open>-1\<close>. \<^verbatim>\<open>count_tokens\<close> is called with its default model while the dictionary is
  built; a failure there leaves the function.
\<close>

type_synonym splitter = "int \<Rightarrow> int \<Rightarrow> string \<Rightarrow> error + string list"

fun rag_chunk_loop ::
  "tiktoken \<Rightarrow> string \<Rightarrow> page_marker list \<Rightarrow> string option \<Rightarrow> nat \<Rightarrow> int \<Rightarrow> string list
   \<Rightarrow> error + rag_chunk list" where
  "rag_chunk_loop tk full_text page_markers doc_id idx current_position [] = Inr []"
| "rag_chunk_loop tk full_text page_markers doc_id idx current_position (ctext # chunks) =
     (let chunk_start = py_find full_text ctext current_position;
          chunk_end = chunk_start + int (length ctext);
          pns = spanned_pages page_markers chunk_start chunk_end
      in case count_tokens tk ctext ''gpt-4'' of
           Inl e \<Rightarrow> Inl e
         | Inr tokens \<Rightarrow>
             (case rag_chunk_loop tk full_text page_markers doc_id (Suc idx) (chunk_start + 1) chunks of
                Inl e \<Rightarrow> Inl e
              | Inr chunk_dicts \<Rightarrow>
                  Inr (\<lparr>chunk_index = idx,
                        chunk_text = ctext,
                        char_count = length ctext,
                        token_count = tokens,
                        page_numbers = pns,
                        chunk_document_id = doc_id,
                        chunk_type = ''rag'',
                        rag_page_number = (case pns of [] \<Rightarrow> None | p # _ \<Rightarrow> Some p)\<rparr>
                       # chunk_dicts)))"

definition create_rag_chunks ::
  "splitter \<Rightarrow> tiktoken \<Rightarrow> page list \<Rightarrow> int \<Rightarrow> int \<Rightarrow> string option \<Rightarrow> error + rag_chunk list" where
  "create_rag_chunks split_text tk pages_data chunk_size chunk_overlap doc_id =
     (case combine_pages pages_data [] [] of
        (full_text, page_markers) \<Rightarrow>
          (case split_text chunk_size chunk_overlap full_text of
             Inl e \<Rightarrow> Inl e
           | Inr chunks \<Rightarrow> rag_chunk_loop tk full_text page_markers doc_id 0 0 chunks))"

text \<open>
  \<^verbatim>\<open>create_summary_chunks\<close> (lines 85-155): the same two loops; the dictionary has
  \<^verbatim>\<open>page_range\<close> (line 140) in place of \<^verbatim>\<open>page_number\<close>. Python's \<^verbatim>\<open>min\<close> and
  \<^verbatim>\<open>max\<close> walk the list from its first element.
\<close>

fun summary_chunk_loop ::
  "tiktoken \<Rightarrow> string \<Rightarrow> page_marker list \<Rightarrow> string option \<Rightarrow> nat \<Rightarrow> int \<Rightarrow> string list
   \<Rightarrow> error + summary_chunk list" where
  "summary_chunk_loop tk full_text page_markers doc_id idx current_position [] = Inr []"
| "summary_chunk_loop tk full_text page_markers doc_id idx current_position (ctext # chunks) =
     (let chunk_start = py_find full_text ctext current_position;
          chunk_end = chunk_start + int (length ctext);
          pns = spanned_pages page_markers chunk_start chunk_end;
          prange = (case pns of
                      [] \<Rightarrow> ''Unknown''
                    | p # ps \<Rightarrow> show_int (fold min ps p) @ ''-'' @ show_int (fold max ps p))
      in case count_tokens tk ctext ''gpt-4'' of
           Inl e \<Rightarrow> Inl e
         | Inr tokens \<Rightarrow>
             (case summary_chunk_loop tk full_text page_markers doc_id (Suc idx) (chunk_start + 1) chunks of
                Inl e \<Rightarrow> Inl e
              | Inr chunk_dicts \<Rightarrow>
                  Inr (\<lparr>chunk_index = idx,
                        chunk_text = ctext,
                        char_count = length ctext,
                        token_count = tokens,
                        page_numbers = pns,
                        chunk_document_id = doc_id,
                        chunk_type = ''summary'',
                        page_range = prange\<rparr>
                       # chunk_dicts)))"

definition create_summary_chunks ::
  "splitter \<Rightarrow> tiktoken \<Rightarrow> page list \<Rightarrow> int \<Rightarrow> int \<Rightarrow> string option \<Rightarrow> error + summary_chunk list" where
  "create_summary_chunks split_text tk pages_data chunk_size chunk_overlap doc_id =
     (case combine_pages pages_data [] [] of
        (full_text, page_markers) \<Rightarrow>
          (case split_text chunk_size chunk_overlap full_text of
             Inl e \<Rightarrow> Inl e
           | Inr chunks \<Rightarrow> summary_chunk_loop tk full_text page_markers doc_id 0 0 chunks))"

text \<open>
  The search positions of the second loop, which the chunk dictionaries do not keep: for
  each segment the value of \<^verbatim>\<open>current_position\<close> when it is searched and the value of
  \<^verbatim>\<open>chunk_start\<close> that the search gives (lines 56, 60 and 80; 128, 131 and 153).
\<close>

fun attribution_trace :: "string \<Rightarrow> int \<Rightarrow> string list \<Rightarrow> (int \<times> int) list" where
  "attribution_trace full_text current_position [] = []"
| "attribution_trace full_text current_position (ctext # chunks) =
     (let chunk_start = py_find full_text ctext current_position
      in (current_position, chunk_start) # attribution_trace full_text (chunk_start + 1) chunks)"

text \<open>A segment occurs in the buffer at an offset.\<close>

definition occurs_at :: "string \<Rightarrow> string \<Rightarrow> nat \<Rightarrow> bool" where
  "occurs_at s sub i \<longleftrightarrow> i + length sub \<le> length s \<and> take (length sub) (drop i s) = sub"

section \<open>The map stage\<close>

text \<open>
  The language model is a parameter. \<^verbatim>\<open>summarize_chunk_async\<close> (\<^verbatim>\<open>nodes.py\<close>, lines
  23-69) fills a fixed prompt with five values and returns the content of the answer, or
  raises what the call raises. The five values are the request; the section number is
  the chunk's \<^verbatim>\<open>chunk_index\<close> plus one.
\<close>

record section_request =
  section_number :: nat
  section_total :: int
  section_page_range :: string
  section_char_count :: nat
  section_text :: string

type_synonym section_llm = "section_request \<Rightarrow> error + string"

definition summarize_chunk_async :: "section_llm \<Rightarrow> summary_chunk \<Rightarrow> int \<Rightarrow> error + string" where
  "summarize_chunk_async llm c n =
     llm \<lparr>section_number = chunk_index c + 1,
          section_total = n,
          section_page_range = page_range c,
          section_char_count = char_count c,
          section_text = chunk_text c\<rparr>"

text \<open>
  \<^verbatim>\<open>asyncio.gather(*tasks)\<close> with its default \<^verbatim>\<open>return_exceptions=False\<close>. The tasks
  run concurrently; the order in which they complete is not fixed by the program, so it
  is a parameter: \<open>order\<close> lists the positions of the tasks as they complete. A task that
  completes with a result fills the slot of its own position. The first task that
  completes with an exception makes \<^verbatim>\<open>gather\<close> raise it at once. When every task has
  completed with a result, \<^verbatim>\<open>gather\<close> returns the results in the order of the tasks. When
  \<open>order\<close> ends with a slot still empty, some task never completes and the \<^verbatim>\<open>await\<close>
  never returns: \<open>None\<close>.
\<close>

fun gather_loop :: "(error + 'a) list \<Rightarrow> nat list \<Rightarrow> 'a option list \<Rightarrow> error + 'a option list" where
  "gather_loop outcomes [] slots = Inr slots"
| "gather_loop outcomes (i # order) slots =
     (if i < length outcomes then
        (case outcomes ! i of
           Inl e \<Rightarrow> Inl e
         | Inr v \<Rightarrow> gather_loop outcomes order (slots[i := Some v]))
      else gather_loop outcomes order slots)"

definition gather :: "(error + 'a) list \<Rightarrow> nat list \<Rightarrow> (error + 'a list) option" where
  "gather outcomes order =
     (case gather_loop outcomes order (replicate (length outcomes) None) of
        Inl e \<Rightarrow> Some (Inl e)
      | Inr slots \<Rightarrow>
          if list_all (\<lambda>slot. slot \<noteq> None) slots then Some (Inr (map the slots)) else None)"

text \<open>
  \<^verbatim>\<open>map_summarize\<close> (lines 72-106) with the model given. The three assignments come
  after the \<^verbatim>\<open>await\<close>; there is no handler around it.
\<close>

definition map_summarize :: "section_llm \<Rightarrow> nat list \<Rightarrow> DocumentState \<Rightarrow> (error + DocumentState) option" where
  "map_summarize llm order state =
     (let chunks = large_chunks state;
          n = total_chunks state;
          tasks = map (\<lambda>c. summarize_chunk_async llm c n) chunks
      in case gather tasks order of
           None \<Rightarrow> None
         | Some (Inl e) \<Rightarrow> Some (Inl e)
         | Some (Inr summaries) \<Rightarrow>
             Some (Inr (state\<lparr>chunk_summaries := summaries,
                              summaries_completed := int (length summaries),
                              status := ''reducing''\<rparr>)))"

section \<open>The reduce stage and the graph\<close>

text \<open>
  \<^verbatim>\<open>reduce_synthesize\<close> (lines 109-173): the summaries are labelled
  \<^verbatim>\<open>SECTION i SUMMARY:\<close>, joined, and sent with three values of the metadata in one
  request.
\<close>

record synthesis_request =
  synthesis_title :: string
  synthesis_page_count :: string
  synthesis_section_count :: nat
  synthesis_concatenated :: string

type_synonym synthesis_llm = "synthesis_request \<Rightarrow> error + string"

definition section_labels :: "string list \<Rightarrow> string list" where
  "section_labels summaries =
     map (\<lambda>(i, summary). ''SECTION '' @ show_nat (i + 1) @ '' SUMMARY:'' @ [CHR 0x0A] @ summary)
       (enumerate 0 summaries)"

definition reduce_synthesize :: "synthesis_llm \<Rightarrow> DocumentState \<Rightarrow> error + DocumentState" where
  "reduce_synthesize llm state =
     (let summaries = chunk_summaries state;
          md = document_metadata state;
          concatenated =
            py_join ([CHR 0x0A, CHR 0x0A] @ ''---'' @ [CHR 0x0A, CHR 0x0A]) (section_labels summaries)
      in case llm \<lparr>synthesis_title = (case map_of md ''title'' of None \<Rightarrow> ''Unknown Document'' | Some t \<Rightarrow> t),
                   synthesis_page_count = (case map_of md ''page_count'' of None \<Rightarrow> ''Unknown'' | Some t \<Rightarrow> t),
                   synthesis_section_count = length summaries,
                   synthesis_concatenated = concatenated\<rparr> of
           Inl e \<Rightarrow> Inl e
         | Inr content \<Rightarrow> Inr (state\<lparr>final_summary := content, status := ''complete''\<rparr>))"

text \<open>
  The graph of \<^verbatim>\<open>graph.py\<close> has the edges distribute, map, reduce, end. Running it is
  running the three nodes in that order; an exception of a node leaves the run.
\<close>

definition run_graph ::
  "section_llm \<Rightarrow> synthesis_llm \<Rightarrow> nat list \<Rightarrow> DocumentState \<Rightarrow> (error + DocumentState) option" where
  "run_graph llm llm2 order initial_state =
     (case map_summarize llm order (distribute_chunks initial_state) of
        None \<Rightarrow> None
      | Some (Inl e) \<Rightarrow> Some (Inl e)
      | Some (Inr state) \<Rightarrow> Some (reduce_synthesize llm2 state))"

section \<open>The summarize endpoint\<close>

text \<open>
  \<^verbatim>\<open>summarize_document\<close> (\<^verbatim>\<open>backend/app/api/summarize.py\<close>, lines 19-84). An entry of
  \<^verbatim>\<open>documents_db\<close> has the four keys the endpoint reads or writes. The endpoint returns
  a JSON response or raises an HTTP exception; both come with the database as the call
  leaves it.
\<close>

record document =
  doc_metadata :: metadata
  doc_summary_chunks :: "summary_chunk list"
  doc_status :: string
  doc_summary :: "string option"

record summarize_content =
  content_document_id :: string
  content_status :: string
  content_summary :: string
  content_chunks_processed :: "int option"

datatype http_result = HTTPException nat string | JSONResponse nat summarize_content

definition summarize_document ::
  "section_llm \<Rightarrow> synthesis_llm \<Rightarrow> nat list \<Rightarrow> (string \<rightharpoonup> document) \<Rightarrow> string
   \<Rightarrow> ((string \<rightharpoonup> document) \<times> http_result) option" where
  "summarize_document llm llm2 order documents_db doc_id =
     (case documents_db doc_id of
        None \<Rightarrow> Some (documents_db, HTTPException 404 ''Document not found'')
      | Some doc_data \<Rightarrow>
          if doc_summary doc_data \<noteq> None \<and> doc_summary doc_data \<noteq> Some [] then
            Some (documents_db,
                  JSONResponse 200
                    \<lparr>content_document_id = doc_id,
                     content_status = ''already_summarized'',
                     content_summary = the (doc_summary doc_data),
                     content_chunks_processed = None\<rparr>)
          else
            (let initial_state =
                   \<lparr>document_id = doc_id,
                    document_metadata = doc_metadata doc_data,
                    large_chunks = doc_summary_chunks doc_data,
                    total_chunks = 0,
                    chunk_summaries = [],
                    summaries_completed = 0,
                    final_summary = [],
                    status = ''distributing'',
                    error_message = None\<rparr>
             in case run_graph llm llm2 order initial_state of
                  None \<Rightarrow> None
                | Some (Inr final_state) \<Rightarrow>
                    Some (documents_db(doc_id \<mapsto>
                            doc_data\<lparr>doc_summary := Some (final_summary final_state),
                                     doc_status := ''summarized''\<rparr>),
                          JSONResponse 200
                            \<lparr>content_document_id = doc_id,
                             content_status = ''complete'',
                             content_summary = final_summary final_state,
                             content_chunks_processed = Some (summaries_completed final_state)\<rparr>)
                | Some (Inl (Exception msg)) \<Rightarrow>
                    Some (documents_db(doc_id \<mapsto> doc_data\<lparr>doc_status := ''error''\<rparr>),
                          HTTPException 500 (''Error during summarization: '' @ msg))))"

section \<open>Facts about the search\<close>

text \<open>
  Inside the buffer a segment occurs at an offset exactly when the slice that starts there
  equals it; beyond the buffer nothing occurs.
\<close>

lemma occurs_at_iff: "i \<le> length s \<Longrightarrow> occurs_at s sub i \<longleftrightarrow> take (length sub) (drop i s) = sub"
  unfolding occurs_at_def
  by (metis add.commute le_add_diff_inverse length_drop length_take min.absorb_iff2 nat_add_left_cancel_le min.cobounded2)

lemma occurs_at_beyond: "length s < j \<Longrightarrow> \<not> occurs_at s sub j"
  by (simp add: occurs_at_def)

text \<open>
  The scan returns \<open>-1\<close> when the segment occurs nowhere from \<open>i\<close> on, and otherwise the
  least offset from \<open>i\<close> on at which it occurs.
\<close>

lemma find_at_spec:
  "i \<le> length s \<Longrightarrow>
     (find_at sub (drop i s) i = - 1 \<and> (\<forall>j\<ge>i. \<not> occurs_at s sub j))
   \<or> (\<exists>k. find_at sub (drop i s) i = int k \<and> i \<le> k \<and> occurs_at s sub k
          \<and> (\<forall>j. i \<le> j \<and> j < k \<longrightarrow> \<not> occurs_at s sub j))"
proof (induction "length s - i" arbitrary: i)
  case 0
  then have i: "i = length s" by simp
  show ?case
  proof (cases "sub = []")
    case True
    then have "occurs_at s sub i" using i by (simp add: occurs_at_def)
    then show ?thesis using i True by auto
  next
    case False
    have "\<not> occurs_at s sub j" if "j \<ge> i" for j
      using that i False by (auto simp: occurs_at_def)
    then show ?thesis using i False by simp
  qed
next
  case (Suc n)
  then have lt: "i < length s" by simp
  then have d: "drop i s = s ! i # drop (Suc i) s" by (simp add: Cons_nth_drop_Suc)
  show ?case
  proof (cases "take (length sub) (drop i s) = sub")
    case True
    then have "occurs_at s sub i" using lt by (simp add: occurs_at_iff)
    moreover have "find_at sub (drop i s) i = int i" using True d by simp
    ultimately show ?thesis by auto
  next
    case False
    then have no: "\<not> occurs_at s sub i" using lt by (simp add: occurs_at_iff)
    have step: "find_at sub (drop i s) i = find_at sub (drop (Suc i) s) (Suc i)"
      using False d by simp
    have "n = length s - Suc i" using Suc(2) by simp
    from Suc(1)[OF this] lt
    have ih: "(find_at sub (drop (Suc i) s) (Suc i) = - 1 \<and> (\<forall>j\<ge>Suc i. \<not> occurs_at s sub j))
       \<or> (\<exists>k. find_at sub (drop (Suc i) s) (Suc i) = int k \<and> Suc i \<le> k \<and> occurs_at s sub k
          \<and> (\<forall>j. Suc i \<le> j \<and> j < k \<longrightarrow> \<not> occurs_at s sub j))" by simp
    then show ?thesis
    proof
      assume a: "find_at sub (drop (Suc i) s) (Suc i) = - 1 \<and> (\<forall>j\<ge>Suc i. \<not> occurs_at s sub j)"
      have "\<not> occurs_at s sub j" if "j \<ge> i" for j
        using that a no by (cases "j = i") auto
      then show ?thesis using a step by simp
    next
      assume "\<exists>k. find_at sub (drop (Suc i) s) (Suc i) = int k \<and> Suc i \<le> k \<and> occurs_at s sub k
          \<and> (\<forall>j. Suc i \<le> j \<and> j < k \<longrightarrow> \<not> occurs_at s sub j)"
      then obtain k where k: "find_at sub (drop (Suc i) s) (Suc i) = int k" "Suc i \<le> k" "occurs_at s sub k"
          "\<forall>j. Suc i \<le> j \<and> j < k \<longrightarrow> \<not> occurs_at s sub j" by blast
      have "\<not> occurs_at s sub j" if "i \<le> j" "j < k" for j
        using that k(4) no by (cases "j = i") auto
      then show ?thesis using k step by auto
    qed
  qed
qed

lemma py_find_spec:
  assumes "0 \<le> start"
  shows "(py_find s sub start = - 1 \<and> (\<forall>j. start \<le> int j \<longrightarrow> \<not> occurs_at s sub j))
   \<or> (\<exists>k. py_find s sub start = int k \<and> start \<le> int k \<and> occurs_at s sub k
          \<and> (\<forall>j. start \<le> int j \<and> j < k \<longrightarrow> \<not> occurs_at s sub j))"
proof (cases "start > int (length s)")
  case True
  then have "py_find s sub start = - 1" using assms by (simp add: py_find_def)
  moreover have "\<not> occurs_at s sub j" if "start \<le> int j" for j
    using that True by (intro occurs_at_beyond) linarith
  ultimately show ?thesis by simp
next
  case False
  then have le: "nat start \<le> length s" using assms by linarith
  have eq: "py_find s sub start = find_at sub (drop (nat start) s) (nat start)"
    using assms False by (simp add: py_find_def)
  have conv: "start \<le> int j \<longleftrightarrow> nat start \<le> j" for j using assms by linarith
  show ?thesis using find_at_spec[OF le, of sub] unfolding eq conv by blast
qed

lemma py_find_lower: "0 \<le> start \<Longrightarrow> - 1 \<le> py_find s sub start"
  using py_find_spec[of start s sub] by auto

section \<open>Facts about the search positions\<close>

lemma length_attribution_trace: "length (attribution_trace full_text c chunks) = length chunks"
  by (induction chunks arbitrary: c) (simp_all add: Let_def)

lemma attribution_trace_first:
  "chunks \<noteq> [] \<Longrightarrow> fst (attribution_trace full_text c chunks ! 0) = c"
  by (cases chunks) (simp_all add: Let_def)

lemma attribution_trace_search:
  "i < length chunks \<Longrightarrow>
     snd (attribution_trace full_text c chunks ! i)
       = py_find full_text (chunks ! i) (fst (attribution_trace full_text c chunks ! i))"
proof (induction chunks arbitrary: c i)
  case Nil
  then show ?case by simp
next
  case (Cons x xs)
  then show ?case by (cases i) (simp_all add: Let_def)
qed

lemma attribution_trace_next:
  "Suc i < length chunks \<Longrightarrow>
     fst (attribution_trace full_text c chunks ! Suc i)
       = snd (attribution_trace full_text c chunks ! i) + 1"
proof (induction chunks arbitrary: c i)
  case Nil
  then show ?case by simp
next
  case (Cons x xs)
  show ?case
  proof (cases i)
    case 0
    with Cons.prems have "xs \<noteq> []" by auto
    then show ?thesis using 0 by (simp add: Let_def attribution_trace_first)
  next
    case (Suc k)
    with Cons.prems have "Suc k < length xs" by simp
    from Cons.IH[OF this] show ?thesis using Suc by (simp add: Let_def)
  qed
qed

lemma attribution_trace_nonneg:
  "0 \<le> c \<Longrightarrow> i < length chunks \<Longrightarrow> 0 \<le> fst (attribution_trace full_text c chunks ! i)"
proof (induction chunks arbitrary: c i)
  case Nil
  then show ?case by simp
next
  case (Cons x xs)
  show ?case
  proof (cases i)
    case 0
    then show ?thesis using Cons.prems by (simp add: Let_def)
  next
    case (Suc k)
    have "0 \<le> py_find full_text x c + 1" using py_find_lower[OF Cons.prems(1), of full_text x] by simp
    from Cons.IH[OF this, of k] Cons.prems(2) Suc show ?thesis by (simp add: Let_def)
  qed
qed

text \<open>
  What the two dictionary loops put into the chunk at position \<open>i\<close>, in terms of the
  search positions.
\<close>

lemma rag_chunk_loop_nth:
  "rag_chunk_loop tk full_text page_markers doc_id idx c chunks = Inr cds \<Longrightarrow>
     length cds = length chunks \<and>
     (\<forall>i<length chunks.
        chunk_index (cds ! i) = idx + i \<and>
        chunk_text (cds ! i) = chunks ! i \<and>
        page_numbers (cds ! i)
          = spanned_pages page_markers (snd (attribution_trace full_text c chunks ! i))
              (snd (attribution_trace full_text c chunks ! i) + int (length (chunks ! i))) \<and>
        rag_page_number (cds ! i) = (case page_numbers (cds ! i) of [] \<Rightarrow> None | p # _ \<Rightarrow> Some p))"
proof (induction chunks arbitrary: idx c cds)
  case Nil
  then show ?case by simp
next
  case (Cons x xs)
  from Cons.prems obtain tokens rest where
    rest: "rag_chunk_loop tk full_text page_markers doc_id (Suc idx) (py_find full_text x c + 1) xs = Inr rest"
    and cds: "cds = \<lparr>chunk_index = idx, chunk_text = x, char_count = length x, token_count = tokens,
        page_numbers = spanned_pages page_markers (py_find full_text x c) (py_find full_text x c + int (length x)),
        chunk_document_id = doc_id, chunk_type = ''rag'',
        rag_page_number = (case spanned_pages page_markers (py_find full_text x c) (py_find full_text x c + int (length x)) of [] \<Rightarrow> None | p # _ \<Rightarrow> Some p)\<rparr> # rest"
    by (auto simp: Let_def split: sum.splits)
  note ih = Cons.IH[OF rest]
  show ?case
  proof (intro conjI allI impI)
    show "length cds = length (x # xs)" using ih cds by simp
  next
    fix i assume "i < length (x # xs)"
    then show "chunk_index (cds ! i) = idx + i" using ih cds by (cases i) auto
  next
    fix i assume "i < length (x # xs)"
    then show "chunk_text (cds ! i) = (x # xs) ! i" using ih cds by (cases i) auto
  next
    fix i assume "i < length (x # xs)"
    then show "page_numbers (cds ! i)
          = spanned_pages page_markers (snd (attribution_trace full_text c (x # xs) ! i))
              (snd (attribution_trace full_text c (x # xs) ! i) + int (length ((x # xs) ! i)))"
      using ih cds by (cases i) (auto simp: Let_def)
  next
    fix i assume "i < length (x # xs)"
    then show "rag_page_number (cds ! i) = (case page_numbers (cds ! i) of [] \<Rightarrow> None | p # _ \<Rightarrow> Some p)"
      using ih cds by (cases i) auto
  qed
qed

lemma fold_min_Min: "fold min ps (p::int) = Min (set (p # ps))"
proof (induction ps arbitrary: p)
  case Nil
  then show ?case by simp
next
  case (Cons q qs)
  have "fold min (q # qs) p = Min (set (min q p # qs))" using Cons.IH by simp
  also have "\<dots> = Min (insert (min q p) (set qs))" by simp
  also have "\<dots> = Min (set (p # q # qs))"
  proof (cases "qs = []")
    case True
    then show ?thesis by (simp add: min.commute)
  next
    case False
    then show ?thesis by (simp add: min.assoc min.commute min.left_commute)
  qed
  finally show ?case .
qed

lemma fold_max_Max: "fold max ps (p::int) = Max (set (p # ps))"
proof (induction ps arbitrary: p)
  case Nil
  then show ?case by simp
next
  case (Cons q qs)
  have "fold max (q # qs) p = Max (set (max q p # qs))" using Cons.IH by simp
  also have "\<dots> = Max (insert (max q p) (set qs))" by simp
  also have "\<dots> = Max (set (p # q # qs))"
  proof (cases "qs = []")
    case True
    then show ?thesis by (simp add: max.commute)
  next
    case False
    then show ?thesis by (simp add: max.assoc max.commute max.left_commute)
  qed
  finally show ?case .
qed

lemma summary_chunk_loop_nth:
  "summary_chunk_loop tk full_text page_markers doc_id idx c chunks = Inr cds \<Longrightarrow>
     length cds = length chunks \<and>
     (\<forall>i<length chunks.
        chunk_index (cds ! i) = idx + i \<and>
        chunk_text (cds ! i) = chunks ! i \<and>
        page_numbers (cds ! i)
          = spanned_pages page_markers (snd (attribution_trace full_text c chunks ! i))
              (snd (attribution_trace full_text c chunks ! i) + int (length (chunks ! i))) \<and>
        page_range (cds ! i)
          = (case page_numbers (cds ! i) of
               [] \<Rightarrow> ''Unknown''
             | p # ps \<Rightarrow> show_int (fold min ps p) @ ''-'' @ show_int (fold max ps p)))"
proof (induction chunks arbitrary: idx c cds)
  case Nil
  then show ?case by simp
next
  case (Cons x xs)
  from Cons.prems obtain tokens rest where
    rest: "summary_chunk_loop tk full_text page_markers doc_id (Suc idx) (py_find full_text x c + 1) xs = Inr rest"
    and cds: "cds = \<lparr>chunk_index = idx, chunk_text = x, char_count = length x, token_count = tokens,
        page_numbers = spanned_pages page_markers (py_find full_text x c) (py_find full_text x c + int (length x)),
        chunk_document_id = doc_id, chunk_type = ''summary'',
        page_range = (case spanned_pages page_markers (py_find full_text x c) (py_find full_text x c + int (length x)) of
               [] \<Rightarrow> ''Unknown''
             | p # ps \<Rightarrow> show_int (fold min ps p) @ ''-'' @ show_int (fold max ps p))\<rparr> # rest"
    by (auto simp: Let_def split: sum.splits)
  note ih = Cons.IH[OF rest]
  show ?case
  proof (intro conjI allI impI)
    show "length cds = length (x # xs)" using ih cds by simp
  next
    fix i assume "i < length (x # xs)"
    then show "chunk_index (cds ! i) = idx + i" using ih cds by (cases i) auto
  next
    fix i assume "i < length (x # xs)"
    then show "chunk_text (cds ! i) = (x # xs) ! i" using ih cds by (cases i) auto
  next
    fix i assume "i < length (x # xs)"
    then show "page_numbers (cds ! i)
          = spanned_pages page_markers (snd (attribution_trace full_text c (x # xs) ! i))
              (snd (attribution_trace full_text c (x # xs) ! i) + int (length ((x # xs) ! i)))"
      using ih cds by (cases i) (auto simp: Let_def)
  next
    fix i assume "i < length (x # xs)"
    then show "page_range (cds ! i)
          = (case page_numbers (cds ! i) of
               [] \<Rightarrow> ''Unknown''
             | p # ps \<Rightarrow> show_int (fold min ps p) @ ''-'' @ show_int (fold max ps p))"
      using ih cds by (cases i) auto
  qed
qed

lemma create_rag_chunks_unfold:
  "combine_pages pages_data [] [] = (full_text, page_markers) \<Longrightarrow>
   split_text chunk_size chunk_overlap full_text = Inr chunks \<Longrightarrow>
     create_rag_chunks split_text tk pages_data chunk_size chunk_overlap doc_id
       = rag_chunk_loop tk full_text page_markers doc_id 0 0 chunks"
  by (simp add: create_rag_chunks_def)

lemma create_summary_chunks_unfold:
  "combine_pages pages_data [] [] = (full_text, page_markers) \<Longrightarrow>
   split_text chunk_size chunk_overlap full_text = Inr chunks \<Longrightarrow>
     create_summary_chunks split_text tk pages_data chunk_size chunk_overlap doc_id
       = summary_chunk_loop tk full_text page_markers doc_id 0 0 chunks"
  by (simp add: create_summary_chunks_def)

lemma create_rag_chunks_Inr:
  assumes "create_rag_chunks split_text tk pages_data chunk_size chunk_overlap doc_id = Inr cds"
  obtains full_text page_markers chunks where
    "combine_pages pages_data [] [] = (full_text, page_markers)"
    "split_text chunk_size chunk_overlap full_text = Inr chunks"
    "rag_chunk_loop tk full_text page_markers doc_id 0 0 chunks = Inr cds"
  using assms by (auto simp: create_rag_chunks_def split: prod.splits sum.splits)

lemma create_summary_chunks_Inr:
  assumes "create_summary_chunks split_text tk pages_data chunk_size chunk_overlap doc_id = Inr cds"
  obtains full_text page_markers chunks where
    "combine_pages pages_data [] [] = (full_text, page_markers)"
    "split_text chunk_size chunk_overlap full_text = Inr chunks"
    "summary_chunk_loop tk full_text page_markers doc_id 0 0 chunks = Inr cds"
  using assms by (auto simp: create_summary_chunks_def split: prod.splits sum.splits)

text \<open>
  The summary chunks come out numbered by their position, which is how the map stage
  meets them.
\<close>

lemma create_summary_chunks_indexed:
  assumes "create_summary_chunks split_text tk pages_data chunk_size chunk_overlap doc_id = Inr cds"
    and "i < length cds"
  shows "chunk_index (cds ! i) = i"
proof -
  from assms(1) obtain full_text page_markers chunks where
    loop: "summary_chunk_loop tk full_text page_markers doc_id 0 0 chunks = Inr cds"
    by (rule create_summary_chunks_Inr)
  from summary_chunk_loop_nth[OF loop] assms(2) show ?thesis by simp
qed

text \<open>
  A failure of the token count in the dictionary loop is the result of the loop.
\<close>

lemma rag_chunk_loop_token_failure:
  "\<exists>c\<in>set chunks. isl (count_tokens tk c ''gpt-4'') \<Longrightarrow>
     \<exists>c\<in>set chunks. \<exists>e. count_tokens tk c ''gpt-4'' = Inl e
        \<and> rag_chunk_loop tk full_text page_markers doc_id idx cur chunks = Inl e"
proof (induction chunks arbitrary: idx cur)
  case Nil
  then show ?case by simp
next
  case (Cons x xs)
  show ?case
  proof (cases "count_tokens tk x ''gpt-4''")
    case (Inl e)
    then show ?thesis by (auto simp: Let_def)
  next
    case (Inr n)
    with Cons.prems have "\<exists>c\<in>set xs. isl (count_tokens tk c ''gpt-4'')" by auto
    from Cons.IH[OF this, of "Suc idx" "py_find full_text x cur + 1"] show ?thesis
      using Inr by (auto simp: Let_def)
  qed
qed

lemma summary_chunk_loop_token_failure:
  "\<exists>c\<in>set chunks. isl (count_tokens tk c ''gpt-4'') \<Longrightarrow>
     \<exists>c\<in>set chunks. \<exists>e. count_tokens tk c ''gpt-4'' = Inl e
        \<and> summary_chunk_loop tk full_text page_markers doc_id idx cur chunks = Inl e"
proof (induction chunks arbitrary: idx cur)
  case Nil
  then show ?case by simp
next
  case (Cons x xs)
  show ?case
  proof (cases "count_tokens tk x ''gpt-4''")
    case (Inl e)
    then show ?thesis by (auto simp: Let_def)
  next
    case (Inr n)
    with Cons.prems have "\<exists>c\<in>set xs. isl (count_tokens tk c ''gpt-4'')" by auto
    from Cons.IH[OF this, of "Suc idx" "py_find full_text x cur + 1"] show ?thesis
      using Inr by (auto simp: Let_def)
  qed
qed

section \<open>Facts about the page markers\<close>

lemma combine_pages_text:
  "fst (combine_pages pages_data full_text page_markers)
     = full_text @ concat (map (\<lambda>p. page_text p @ [CHR 0x0A, CHR 0x0A]) pages_data)"
  by (induction pages_data arbitrary: full_text page_markers) (simp_all add: Let_def)

lemma combine_pages_keeps:
  "\<exists>new. snd (combine_pages pages_data full_text page_markers) = page_markers @ new
          \<and> length new = length pages_data"
proof (induction pages_data arbitrary: full_text page_markers)
  case Nil
  then show ?case by simp
next
  case (Cons p ps)
  let ?ft = "full_text @ page_text p @ [CHR 0x0A, CHR 0x0A]"
  let ?m = "\<lparr>marker_page_number = page_number p, start_pos = length full_text, end_pos = length ?ft\<rparr>"
  from Cons.IH[of ?ft "page_markers @ [?m]"]
  obtain new where "snd (combine_pages ps ?ft (page_markers @ [?m])) = (page_markers @ [?m]) @ new"
    and "length new = length ps" by blast
  then have "snd (combine_pages (p # ps) full_text page_markers) = page_markers @ (?m # new)
     \<and> length (?m # new) = length (p # ps)" by (simp add: Let_def)
  then show ?case by blast
qed

lemma combine_pages_length:
  "length (snd (combine_pages pages_data full_text page_markers))
     = length page_markers + length pages_data"
  using combine_pages_keeps[of pages_data full_text page_markers] by auto

lemma combine_pages_old:
  "j < length page_markers \<Longrightarrow>
     snd (combine_pages pages_data full_text page_markers) ! j = page_markers ! j"
  using combine_pages_keeps[of pages_data full_text page_markers] by (auto simp: nth_append)

lemma combine_pages_nth:
  "i < length pages_data \<Longrightarrow>
     snd (combine_pages pages_data full_text page_markers) ! (length page_markers + i)
       = \<lparr>marker_page_number = page_number (pages_data ! i),
          start_pos = length full_text
            + length (concat (map (\<lambda>p. page_text p @ [CHR 0x0A, CHR 0x0A]) (take i pages_data))),
          end_pos = length full_text
            + length (concat (map (\<lambda>p. page_text p @ [CHR 0x0A, CHR 0x0A]) (take (Suc i) pages_data)))\<rparr>"
proof (induction pages_data arbitrary: full_text page_markers i)
  case Nil
  then show ?case by simp
next
  case (Cons p ps)
  let ?ft = "full_text @ page_text p @ [CHR 0x0A, CHR 0x0A]"
  let ?m = "\<lparr>marker_page_number = page_number p, start_pos = length full_text, end_pos = length ?ft\<rparr>"
  have unfold: "combine_pages (p # ps) full_text page_markers = combine_pages ps ?ft (page_markers @ [?m])"
    by (simp add: Let_def)
  show ?case
  proof (cases i)
    case 0
    have "snd (combine_pages ps ?ft (page_markers @ [?m])) ! length page_markers = ?m"
      using combine_pages_old[of "length page_markers" "page_markers @ [?m]" ps ?ft] by simp
    then show ?thesis using 0 unfold by simp
  next
    case (Suc k)
    with Cons.prems have k: "k < length ps" by simp
    from Cons.IH[OF k, of ?ft "page_markers @ [?m]"] show ?thesis
      using Suc unfold by (simp add: add.assoc)
  qed
qed

lemma offset_step:
  "i < length pages_data \<Longrightarrow>
     concat (map (\<lambda>p. page_text p @ [CHR 0x0A, CHR 0x0A]) (take (Suc i) pages_data))
       = concat (map (\<lambda>p. page_text p @ [CHR 0x0A, CHR 0x0A]) (take i pages_data))
           @ page_text (pages_data ! i) @ [CHR 0x0A, CHR 0x0A]"
  by (simp add: take_Suc_conv_app_nth)

lemma combine_pages_marker:
  assumes "combine_pages pages_data [] [] = (full_text, page_markers)" and "i < length pages_data"
  shows "marker_page_number (page_markers ! i) = page_number (pages_data ! i)"
    and "start_pos (page_markers ! i)
           = length (concat (map (\<lambda>p. page_text p @ [CHR 0x0A, CHR 0x0A]) (take i pages_data)))"
    and "end_pos (page_markers ! i)
           = start_pos (page_markers ! i) + length (page_text (pages_data ! i)) + 2"
proof -
  have pm: "page_markers = snd (combine_pages pages_data [] [])" using assms(1) by simp
  have nth: "page_markers ! i
       = \<lparr>marker_page_number = page_number (pages_data ! i),
          start_pos = length (concat (map (\<lambda>p. page_text p @ [CHR 0x0A, CHR 0x0A]) (take i pages_data))),
          end_pos = length (concat (map (\<lambda>p. page_text p @ [CHR 0x0A, CHR 0x0A]) (take (Suc i) pages_data)))\<rparr>"
    using combine_pages_nth[OF assms(2), of "[]" "[]"] pm by simp
  show "marker_page_number (page_markers ! i) = page_number (pages_data ! i)" using nth by simp
  show "start_pos (page_markers ! i)
           = length (concat (map (\<lambda>p. page_text p @ [CHR 0x0A, CHR 0x0A]) (take i pages_data)))"
    using nth by simp
  show "end_pos (page_markers ! i)
           = start_pos (page_markers ! i) + length (page_text (pages_data ! i)) + 2"
    using nth offset_step[OF assms(2)] by simp
qed

lemma combine_pages_result:
  assumes "combine_pages pages_data [] [] = (full_text, page_markers)"
  shows "length page_markers = length pages_data"
    and "full_text = concat (map (\<lambda>p. page_text p @ [CHR 0x0A, CHR 0x0A]) pages_data)"
  using assms combine_pages_length[of pages_data "[]" "[]"] combine_pages_text[of pages_data "[]" "[]"]
  by auto

lemma offset_mono:
  "i \<le> j \<Longrightarrow>
     length (concat (map (\<lambda>p. page_text p @ [CHR 0x0A, CHR 0x0A]) (take i pages_data)))
       \<le> length (concat (map (\<lambda>p. page_text p @ [CHR 0x0A, CHR 0x0A]) (take j pages_data)))"
proof -
  assume "i \<le> j"
  then have "take j pages_data = take i pages_data @ drop i (take j pages_data)"
    by (metis append_take_drop_id min.absorb1 take_take)
  then have "concat (map (\<lambda>p. page_text p @ [CHR 0x0A, CHR 0x0A]) (take j pages_data))
     = concat (map (\<lambda>p. page_text p @ [CHR 0x0A, CHR 0x0A]) (take i pages_data))
       @ concat (map (\<lambda>p. page_text p @ [CHR 0x0A, CHR 0x0A]) (drop i (take j pages_data)))"
    by (metis concat_append map_append)
  then show ?thesis by simp
qed

lemma offset_cover:
  "m \<le> length pages_data \<Longrightarrow>
   k < length (concat (map (\<lambda>p. page_text p @ [CHR 0x0A, CHR 0x0A]) (take m pages_data))) \<Longrightarrow>
     \<exists>i<m. length (concat (map (\<lambda>p. page_text p @ [CHR 0x0A, CHR 0x0A]) (take i pages_data))) \<le> k
          \<and> k < length (concat (map (\<lambda>p. page_text p @ [CHR 0x0A, CHR 0x0A]) (take (Suc i) pages_data)))"
proof (induction m)
  case 0
  then show ?case by simp
next
  case (Suc m)
  show ?case
  proof (cases "k < length (concat (map (\<lambda>p. page_text p @ [CHR 0x0A, CHR 0x0A]) (take m pages_data)))")
    case True
    with Suc obtain i where "i < m"
      "length (concat (map (\<lambda>p. page_text p @ [CHR 0x0A, CHR 0x0A]) (take i pages_data))) \<le> k"
      "k < length (concat (map (\<lambda>p. page_text p @ [CHR 0x0A, CHR 0x0A]) (take (Suc i) pages_data)))"
      by auto
    then show ?thesis using less_Suc_eq by blast
  next
    case False
    then show ?thesis using Suc.prems(2) by (intro exI[of _ m]) simp
  qed
qed

lemma markers_cover_unique:
  assumes cp: "combine_pages pages_data [] [] = (full_text, page_markers)"
    and k: "k < length full_text"
  shows "\<exists>!i. i < length page_markers \<and> start_pos (page_markers ! i) \<le> k \<and> k < end_pos (page_markers ! i)"
proof -
  let ?S = "\<lambda>i. length (concat (map (\<lambda>p. page_text p @ [CHR 0x0A, CHR 0x0A]) (take i pages_data)))"
  have len: "length page_markers = length pages_data" using combine_pages_result(1)[OF cp] .
  have ft: "length full_text = ?S (length pages_data)" using combine_pages_result(2)[OF cp] by simp
  have st: "start_pos (page_markers ! i) = ?S i" if "i < length pages_data" for i
    using combine_pages_marker(2)[OF cp that] .
  have en: "end_pos (page_markers ! i) = ?S (Suc i)" if "i < length pages_data" for i
    using combine_pages_marker(3)[OF cp that] st[OF that] offset_step[OF that] by simp
  from offset_cover[of "length pages_data" pages_data k] k ft
  obtain i where i: "i < length pages_data" "?S i \<le> k" "k < ?S (Suc i)" by auto
  show ?thesis
  proof (rule ex1I[of _ i])
    show "i < length page_markers \<and> start_pos (page_markers ! i) \<le> k \<and> k < end_pos (page_markers ! i)"
      using i st en len by simp
  next
    fix j assume j: "j < length page_markers \<and> start_pos (page_markers ! j) \<le> k \<and> k < end_pos (page_markers ! j)"
    then have jl: "j < length pages_data" and js: "?S j \<le> k" and je: "k < ?S (Suc j)"
      using st en len by auto
    show "j = i"
    proof (rule ccontr)
      assume "j \<noteq> i"
      then consider "j < i" | "i < j" by linarith
      then show False
      proof cases
        case 1
        then have "?S (Suc j) \<le> ?S i" by (intro offset_mono) simp
        then show False using je i(2) by linarith
      next
        case 2
        then have "?S (Suc i) \<le> ?S j" by (intro offset_mono) simp
        then show False using js i(3) by linarith
      qed
    qed
  qed
qed

lemma markers_contiguous:
  assumes cp: "combine_pages pages_data [] [] = (full_text, page_markers)"
    and i: "Suc i < length page_markers"
  shows "end_pos (page_markers ! i) = start_pos (page_markers ! Suc i)"
proof -
  have len: "length page_markers = length pages_data" using combine_pages_result(1)[OF cp] .
  have i': "i < length pages_data" and si: "Suc i < length pages_data" using i len by simp_all
  show ?thesis
    using combine_pages_marker(2,3)[OF cp i'] combine_pages_marker(2)[OF cp si] offset_step[OF i']
    by simp
qed

lemma markers_page_numbers:
  assumes cp: "combine_pages pages_data [] [] = (full_text, page_markers)"
  shows "map marker_page_number page_markers = map page_number pages_data"
proof (rule nth_equalityI)
  show "length (map marker_page_number page_markers) = length (map page_number pages_data)"
    using combine_pages_result(1)[OF cp] by simp
next
  fix i assume "i < length (map marker_page_number page_markers)"
  then have "i < length pages_data" using combine_pages_result(1)[OF cp] by simp
  then show "map marker_page_number page_markers ! i = map page_number pages_data ! i"
    using combine_pages_marker(1)[OF cp] combine_pages_result(1)[OF cp] by simp
qed

lemma markers_ends:
  assumes cp: "combine_pages pages_data [] [] = (full_text, page_markers)"
    and ne: "pages_data \<noteq> []"
  shows "start_pos (hd page_markers) = 0" and "end_pos (last page_markers) = length full_text"
proof -
  have len: "length page_markers = length pages_data" using combine_pages_result(1)[OF cp] .
  then have pm: "page_markers \<noteq> []" using ne by auto
  have z: "0 < length pages_data" using ne by simp
  show "start_pos (hd page_markers) = 0"
    using combine_pages_marker(2)[OF cp z] pm by (simp add: hd_conv_nth)
  have l: "length pages_data - 1 < length pages_data" using ne by simp
  have "end_pos (last page_markers) = end_pos (page_markers ! (length pages_data - 1))"
    using pm len by (simp add: last_conv_nth)
  also have "\<dots> = length (concat (map (\<lambda>p. page_text p @ [CHR 0x0A, CHR 0x0A]) (take (Suc (length pages_data - 1)) pages_data)))"
    using combine_pages_marker(2,3)[OF cp l] offset_step[OF l] by simp
  also have "\<dots> = length full_text" using combine_pages_result(2)[OF cp] ne by simp
  finally show "end_pos (last page_markers) = length full_text" .
qed

lemma marker_slice:
  assumes cp: "combine_pages pages_data [] [] = (full_text, page_markers)"
    and i: "i < length pages_data"
  shows "take (end_pos (page_markers ! i) - start_pos (page_markers ! i))
           (drop (start_pos (page_markers ! i)) full_text)
         = page_text (pages_data ! i) @ [CHR 0x0A, CHR 0x0A]"
proof -
  let ?f = "\<lambda>p. page_text p @ [CHR 0x0A, CHR 0x0A]"
  define A where "A = concat (map ?f (take i pages_data))"
  define C where "C = concat (map ?f (drop (Suc i) pages_data))"
  have split: "pages_data = take i pages_data @ pages_data ! i # drop (Suc i) pages_data"
    using i by (rule id_take_nth_drop)
  have "concat (map ?f pages_data)
     = concat (map ?f (take i pages_data @ pages_data ! i # drop (Suc i) pages_data))"
    by (rule arg_cong[where f = "\<lambda>xs. concat (map ?f xs)", OF split])
  also have "\<dots> = A @ (page_text (pages_data ! i) @ [CHR 0x0A, CHR 0x0A]) @ C"
    by (simp add: A_def C_def)
  finally have ft: "full_text = A @ (page_text (pages_data ! i) @ [CHR 0x0A, CHR 0x0A]) @ C"
    using combine_pages_result(2)[OF cp] by simp
  have st: "start_pos (page_markers ! i) = length A"
    using combine_pages_marker(2)[OF cp i] by (simp add: A_def)
  have d: "end_pos (page_markers ! i) - length A = length (page_text (pages_data ! i) @ [CHR 0x0A, CHR 0x0A])"
    using combine_pages_marker(3)[OF cp i] st by simp
  have "take (length (page_text (pages_data ! i) @ [CHR 0x0A, CHR 0x0A]))
          (drop (length A) (A @ (page_text (pages_data ! i) @ [CHR 0x0A, CHR 0x0A]) @ C))
        = page_text (pages_data ! i) @ [CHR 0x0A, CHR 0x0A]"
    by simp
  then show ?thesis unfolding st d ft .
qed

section \<open>Facts about the map stage\<close>

lemma gather_loop_success:
  "length slots = length vals \<Longrightarrow>
     \<exists>slots'. gather_loop (map Inr vals) order slots = Inr slots'
       \<and> length slots' = length vals
       \<and> (\<forall>j<length vals. slots' ! j = (if j \<in> set order then Some (vals ! j) else slots ! j))"
proof (induction order arbitrary: slots)
  case Nil
  then show ?case by simp
next
  case (Cons i order)
  show ?case
  proof (cases "i < length vals")
    case True
    have len: "length (slots[i := Some (vals ! i)]) = length vals" using Cons.prems by simp
    from Cons.IH[OF len] obtain slots' where
      s: "gather_loop (map Inr vals) order (slots[i := Some (vals ! i)]) = Inr slots'"
         "length slots' = length vals"
         "\<forall>j<length vals. slots' ! j = (if j \<in> set order then Some (vals ! j) else (slots[i := Some (vals ! i)]) ! j)"
      by blast
    have "gather_loop (map Inr vals) (i # order) slots = Inr slots'" using True s(1) by simp
    moreover have "\<forall>j<length vals. slots' ! j = (if j \<in> set (i # order) then Some (vals ! j) else slots ! j)"
      using s(3) Cons.prems by (auto simp: nth_list_update)
    ultimately show ?thesis using s(2) by blast
  next
    case False
    from Cons.IH[OF Cons.prems] obtain slots' where
      s: "gather_loop (map Inr vals) order slots = Inr slots'"
         "length slots' = length vals"
         "\<forall>j<length vals. slots' ! j = (if j \<in> set order then Some (vals ! j) else slots ! j)"
      by blast
    have "gather_loop (map Inr vals) (i # order) slots = Inr slots'" using False s(1) by simp
    moreover have "\<forall>j<length vals. slots' ! j = (if j \<in> set (i # order) then Some (vals ! j) else slots ! j)"
      using s(3) False by auto
    ultimately show ?thesis using s(2) by blast
  qed
qed

lemma gather_success:
  assumes "{..<length vals} \<subseteq> set order"
  shows "gather (map Inr vals) order = Some (Inr vals)"
proof -
  from gather_loop_success[of "replicate (length vals) None" vals order]
  obtain slots' where
    s: "gather_loop (map Inr vals) order (replicate (length vals) None) = Inr slots'"
       "length slots' = length vals"
       "\<forall>j<length vals. slots' ! j = (if j \<in> set order then Some (vals ! j) else replicate (length vals) None ! j)"
    by auto
  have all: "slots' ! j = Some (vals ! j)" if "j < length vals" for j
    using s(3) that assms by auto
  have eq: "slots' = map Some vals"
    by (rule nth_equalityI) (use s(2) all in auto)
  have "list_all (\<lambda>slot. slot \<noteq> None) slots'" unfolding eq by (simp add: list_all_iff)
  moreover have "map the slots' = vals" unfolding eq by (simp add: comp_def)
  ultimately show ?thesis using s(1) by (simp add: gather_def)
qed

lemma gather_loop_failure:
  "\<exists>i\<in>set order. i < length outcomes \<and> isl (outcomes ! i) \<Longrightarrow>
     \<exists>i\<in>set order. i < length outcomes \<and>
        (\<exists>e. outcomes ! i = Inl e \<and> gather_loop outcomes order slots = Inl e)"
proof (induction order arbitrary: slots)
  case Nil
  then show ?case by simp
next
  case (Cons i order)
  show ?case
  proof (cases "i < length outcomes \<and> isl (outcomes ! i)")
    case True
    then obtain e where "outcomes ! i = Inl e" by (auto simp: isl_def)
    then show ?thesis using True by auto
  next
    case False
    with Cons.prems have ex: "\<exists>i\<in>set order. i < length outcomes \<and> isl (outcomes ! i)" by auto
    show ?thesis
    proof (cases "i < length outcomes")
      case True
      with False obtain v where v: "outcomes ! i = Inr v" by (cases "outcomes ! i") auto
      from Cons.IH[OF ex, of "slots[i := Some v]"] show ?thesis using True v by auto
    next
      case f: False
      from Cons.IH[OF ex, of slots] show ?thesis using f by auto
    qed
  qed
qed

lemma gather_failure:
  assumes "i < length outcomes" and "isl (outcomes ! i)" and "i \<in> set order"
  shows "\<exists>j<length outcomes. \<exists>e. outcomes ! j = Inl e \<and> gather outcomes order = Some (Inl e)"
proof -
  have "\<exists>i\<in>set order. i < length outcomes \<and> isl (outcomes ! i)" using assms by auto
  from gather_loop_failure[OF this, of "replicate (length outcomes) None"]
  show ?thesis by (auto simp: gather_def)
qed

lemma map_summarize_all_succeed:
  assumes ok: "\<forall>i<length (large_chunks state).
                 \<exists>s. summarize_chunk_async llm (large_chunks state ! i) (total_chunks state) = Inr s"
    and complete: "{..<length (large_chunks state)} \<subseteq> set order"
  shows "\<exists>summaries.
           map_summarize llm order state
             = Some (Inr (state\<lparr>chunk_summaries := summaries,
                               summaries_completed := int (length (large_chunks state)),
                               status := ''reducing''\<rparr>))
         \<and> length summaries = length (large_chunks state)
         \<and> (\<forall>i<length (large_chunks state).
               summarize_chunk_async llm (large_chunks state ! i) (total_chunks state) = Inr (summaries ! i))"
proof -
  let ?tasks = "map (\<lambda>c. summarize_chunk_async llm c (total_chunks state)) (large_chunks state)"
  define vals where "vals = map projr ?tasks"
  have len: "length vals = length (large_chunks state)" by (simp add: vals_def)
  have nth: "summarize_chunk_async llm (large_chunks state ! i) (total_chunks state) = Inr (vals ! i)"
    if "i < length (large_chunks state)" for i
    using ok that by (auto simp: vals_def)
  have tasks: "?tasks = map Inr vals"
    by (rule nth_equalityI) (use len nth in auto)
  have "gather ?tasks order = Some (Inr vals)"
    unfolding tasks by (rule gather_success) (use complete len in simp)
  then have "map_summarize llm order state
             = Some (Inr (state\<lparr>chunk_summaries := vals,
                               summaries_completed := int (length (large_chunks state)),
                               status := ''reducing''\<rparr>))"
    by (simp add: map_summarize_def Let_def len)
  then show ?thesis using len nth by blast
qed

lemma map_summarize_one_fails:
  assumes i: "i < length (large_chunks state)"
    and fail: "isl (summarize_chunk_async llm (large_chunks state ! i) (total_chunks state))"
    and completes: "i \<in> set order"
  shows "\<exists>j<length (large_chunks state). \<exists>e.
           summarize_chunk_async llm (large_chunks state ! j) (total_chunks state) = Inl e
         \<and> map_summarize llm order state = Some (Inl e)"
proof -
  let ?tasks = "map (\<lambda>c. summarize_chunk_async llm c (total_chunks state)) (large_chunks state)"
  have "\<exists>j<length ?tasks. \<exists>e. ?tasks ! j = Inl e \<and> gather ?tasks order = Some (Inl e)"
    by (rule gather_failure[of i]) (use assms in auto)
  then obtain j e where j: "j < length (large_chunks state)" "?tasks ! j = Inl e"
     "gather ?tasks order = Some (Inl e)" by auto
  have "map_summarize llm order state = Some (Inl e)"
    using j(3) by (simp add: map_summarize_def Let_def)
  then show ?thesis using j(1,2) by auto
qed

lemma summarize_document_map_failure:
  assumes db: "documents_db doc_id = Some doc_data"
    and nosum: "doc_summary doc_data = None \<or> doc_summary doc_data = Some []"
    and run: "map_summarize llm order
                (distribute_chunks
                   \<lparr>document_id = doc_id, document_metadata = doc_metadata doc_data,
                    large_chunks = doc_summary_chunks doc_data, total_chunks = 0,
                    chunk_summaries = [], summaries_completed = 0, final_summary = [],
                    status = ''distributing'', error_message = None\<rparr>) = Some (Inl (Exception msg))"
  shows "summarize_document llm llm2 order documents_db doc_id
           = Some (documents_db(doc_id \<mapsto> doc_data\<lparr>doc_status := ''error''\<rparr>),
                   HTTPException 500 (''Error during summarization: '' @ msg))"
  using db nosum run
  by (auto simp: summarize_document_def run_graph_def Let_def)

lemma distribute_chunks_fields:
  "status (distribute_chunks state) = ''mapping''
   \<and> total_chunks (distribute_chunks state) = int (length (large_chunks state))
   \<and> chunk_summaries (distribute_chunks state) = []
   \<and> summaries_completed (distribute_chunks state) = 0"
  by (simp add: distribute_chunks_def)

section \<open>The distribute stage: claims C1 and C10\<close>

text \<open>
  Claim C1 asks that a state whose \<^verbatim>\<open>large_chunks\<close> is empty is refused and never gets
  the status \<^verbatim>\<open>mapping\<close>. The docstring of \<^verbatim>\<open>distribute_chunks\<close> says that the node
  validates the chunks, but the body has no test: on the state that the summarize endpoint
  builds for a document without summary chunks it returns the status \<^verbatim>\<open>mapping\<close> with
  \<^verbatim>\<open>total_chunks\<close> 0, and the run of the graph from that state goes through map and
  reduce to \<^verbatim>\<open>complete\<close> without an error. (For a non-empty list the four assignments
  are what the claim says: \<open>distribute_chunks_fields\<close>.)
\<close>

theorem distribute_chunks_empty_enters_mapping:
  "distribute_chunks
     \<lparr>document_id = ''d'', document_metadata = [], large_chunks = [], total_chunks = 0,
      chunk_summaries = [], summaries_completed = 0, final_summary = [],
      status = ''distributing'', error_message = None\<rparr>
   = \<lparr>document_id = ''d'', document_metadata = [], large_chunks = [], total_chunks = 0,
      chunk_summaries = [], summaries_completed = 0, final_summary = [],
      status = ''mapping'', error_message = None\<rparr>
   \<and> run_graph (\<lambda>request. Inr ''section'') (\<lambda>request. Inr ''synthesis'') []
     \<lparr>document_id = ''d'', document_metadata = [], large_chunks = [], total_chunks = 0,
      chunk_summaries = [], summaries_completed = 0, final_summary = [],
      status = ''distributing'', error_message = None\<rparr>
   = Some (Inr
     \<lparr>document_id = ''d'', document_metadata = [], large_chunks = [], total_chunks = 0,
      chunk_summaries = [], summaries_completed = 0, final_summary = ''synthesis'',
      status = ''complete'', error_message = None\<rparr>)"
  by (simp add: distribute_chunks_def run_graph_def map_summarize_def gather_def
      reduce_synthesize_def section_labels_def Let_def)

text \<open>
  Claim C10. The distribute stage changes only \<^verbatim>\<open>status\<close>, \<^verbatim>\<open>total_chunks\<close>,
  \<^verbatim>\<open>chunk_summaries\<close> and \<^verbatim>\<open>summaries_completed\<close>: for every input state the fields
  \<^verbatim>\<open>document_id\<close>, \<^verbatim>\<open>document_metadata\<close>, \<^verbatim>\<open>large_chunks\<close>, \<^verbatim>\<open>final_summary\<close> and
  \<^verbatim>\<open>error_message\<close> of the returned state are those of the input state. The second
  conjunct says the same from the other side: the returned state is the input state with
  at most those four fields replaced.
\<close>

theorem distribute_chunks_frame:
  "document_id (distribute_chunks state) = document_id state
   \<and> document_metadata (distribute_chunks state) = document_metadata state
   \<and> large_chunks (distribute_chunks state) = large_chunks state
   \<and> final_summary (distribute_chunks state) = final_summary state
   \<and> error_message (distribute_chunks state) = error_message state
   \<and> distribute_chunks state
       = state\<lparr>total_chunks := total_chunks (distribute_chunks state),
               chunk_summaries := chunk_summaries (distribute_chunks state),
               summaries_completed := summaries_completed (distribute_chunks state),
               status := status (distribute_chunks state)\<rparr>"
  by (simp add: distribute_chunks_def)

section \<open>The map stage: claims C2 and C3\<close>

text \<open>
  Claim C2, as the code has it. When a summarization call of the map stage fails (and
  its task completes), \<^verbatim>\<open>map_summarize\<close> raises the failure of one of its calls and
  assigns nothing: no state is returned, so the status is not set to \<^verbatim>\<open>error\<close>,
  \<^verbatim>\<open>error_message\<close> is not set and no summary, partial or not, is stored in
  \<^verbatim>\<open>chunk_summaries\<close>. The failure is recorded one level up: the summarize endpoint, which
  runs the stage on the state that distribute leaves, sets the status of the document
  entry to \<^verbatim>\<open>error\<close>, leaves its summary as it was and raises HTTP 500 with the text of
  the failure.
\<close>

theorem map_failure_is_raised:
  assumes i: "i < length (large_chunks state)"
    and fail: "isl (summarize_chunk_async llm (large_chunks state ! i) (total_chunks state))"
    and completes: "i \<in> set order"
  shows "\<exists>j<length (large_chunks state). \<exists>msg.
           summarize_chunk_async llm (large_chunks state ! j) (total_chunks state) = Inl (Exception msg)
         \<and> map_summarize llm order state = Some (Inl (Exception msg))
         \<and> (\<forall>documents_db doc_data llm2.
               documents_db (document_id state) = Some doc_data
               \<and> (doc_summary doc_data = None \<or> doc_summary doc_data = Some [])
               \<and> state = distribute_chunks
                   \<lparr>document_id = document_id state, document_metadata = doc_metadata doc_data,
                    large_chunks = doc_summary_chunks doc_data, total_chunks = 0,
                    chunk_summaries = [], summaries_completed = 0, final_summary = [],
                    status = ''distributing'', error_message = None\<rparr>
               \<longrightarrow> summarize_document llm llm2 order documents_db (document_id state)
                     = Some (documents_db(document_id state \<mapsto> doc_data\<lparr>doc_status := ''error''\<rparr>),
                             HTTPException 500 (''Error during summarization: '' @ msg)))"
proof -
  from map_summarize_one_fails[OF i fail completes] obtain j e where
    j: "j < length (large_chunks state)"
    and e: "summarize_chunk_async llm (large_chunks state ! j) (total_chunks state) = Inl e"
    and run: "map_summarize llm order state = Some (Inl e)"
    by blast
  obtain msg where msg: "e = Exception msg" by (cases e)
  have endpoint: "summarize_document llm llm2 order documents_db (document_id state)
                     = Some (documents_db(document_id state \<mapsto> doc_data\<lparr>doc_status := ''error''\<rparr>),
                             HTTPException 500 (''Error during summarization: '' @ msg))"
    if "documents_db (document_id state) = Some doc_data"
      and "doc_summary doc_data = None \<or> doc_summary doc_data = Some []"
      and "state = distribute_chunks
                   \<lparr>document_id = document_id state, document_metadata = doc_metadata doc_data,
                    large_chunks = doc_summary_chunks doc_data, total_chunks = 0,
                    chunk_summaries = [], summaries_completed = 0, final_summary = [],
                    status = ''distributing'', error_message = None\<rparr>"
    for documents_db doc_data llm2
  proof -
    have "map_summarize llm order
     (distribute_chunks
       \<lparr>document_id = document_id state, document_metadata = doc_metadata doc_data,
          large_chunks = doc_summary_chunks doc_data, total_chunks = 0, chunk_summaries = [],
          summaries_completed = 0, final_summary = [], status = ''distributing'',
          error_message = None\<rparr>) = Some (Inl (Exception msg))"
      using run msg that(3) by simp
    with that(1,2) show ?thesis by (rule summarize_document_map_failure)
  qed
  show ?thesis using j e run msg endpoint by blast
qed

text \<open>
  The theorem at a run of two chunks where the call for the second section fails.
\<close>

theorem map_failure_is_raised_witness:
  "map_summarize
       (\<lambda>request. if section_number request = 2 then Inl (Exception ''rate limit'')
                   else Inr (''summary of '' @ section_text request))
       [0, 1]
       (distribute_chunks
         \<lparr>document_id = ''d'', document_metadata = [],
          large_chunks =
            [\<lparr>chunk_index = 0, chunk_text = ''first'', char_count = 5, token_count = 1,
              page_numbers = [1], chunk_document_id = Some ''d'', chunk_type = ''summary'',
              page_range = ''1-1''\<rparr>,
             \<lparr>chunk_index = 1, chunk_text = ''second'', char_count = 6, token_count = 1,
              page_numbers = [1], chunk_document_id = Some ''d'', chunk_type = ''summary'',
              page_range = ''1-1''\<rparr>],
          total_chunks = 0, chunk_summaries = [], summaries_completed = 0, final_summary = [],
          status = ''distributing'', error_message = None\<rparr>)
     = Some (Inl (Exception ''rate limit''))"
proof -
  let ?llm = "(\<lambda>request. if section_number request = 2 then Inl (Exception ''rate limit'')
                   else Inr (''summary of '' @ section_text request)) :: section_llm"
  let ?c0 = "\<lparr>chunk_index = 0, chunk_text = ''first'', char_count = 5, token_count = 1,
            page_numbers = [1], chunk_document_id = Some ''d'', chunk_type = ''summary'',
            page_range = ''1-1''\<rparr>"
  let ?c1 = "\<lparr>chunk_index = 1, chunk_text = ''second'', char_count = 6, token_count = 1,
            page_numbers = [1], chunk_document_id = Some ''d'', chunk_type = ''summary'',
            page_range = ''1-1''\<rparr>"
  let ?state = "distribute_chunks \<lparr>document_id = ''d'', document_metadata = [], large_chunks = [?c0, ?c1],
        total_chunks = 0, chunk_summaries = [], summaries_completed = 0, final_summary = [],
        status = ''distributing'', error_message = None\<rparr>"
  have i: "1 < length (large_chunks ?state)" by (simp add: distribute_chunks_def)
  have fail: "isl (summarize_chunk_async ?llm (large_chunks ?state ! 1) (total_chunks ?state))"
    by (simp add: distribute_chunks_def summarize_chunk_async_def)
  have completes: "1 \<in> set [0, 1]" by simp
  from map_failure_is_raised[OF i fail completes]
  obtain j msg where j: "j < length (large_chunks ?state)"
    "summarize_chunk_async ?llm (large_chunks ?state ! j) (total_chunks ?state) = Inl (Exception msg)"
    "map_summarize ?llm [0, 1] ?state = Some (Inl (Exception msg))"
    by blast
  from j(1) have "j = 0 \<or> j = 1" by (auto simp: distribute_chunks_def)
  with j(2) have "msg = ''rate limit''"
    by (auto simp: distribute_chunks_def summarize_chunk_async_def)
  with j(3) show ?thesis by simp
qed

text \<open>
  Claim C2 as stated fails on that run: the map stage ends by raising, and the state it
  was given still has the status \<^verbatim>\<open>mapping\<close> and no \<^verbatim>\<open>error_message\<close>.
\<close>

theorem map_failure_status_counterexample:
  "map_summarize
       (\<lambda>request. if section_number request = 2 then Inl (Exception ''rate limit'')
                   else Inr (''summary of '' @ section_text request))
       [0, 1]
       (distribute_chunks
         \<lparr>document_id = ''d'', document_metadata = [],
          large_chunks =
            [\<lparr>chunk_index = 0, chunk_text = ''first'', char_count = 5, token_count = 1,
              page_numbers = [1], chunk_document_id = Some ''d'', chunk_type = ''summary'',
              page_range = ''1-1''\<rparr>,
             \<lparr>chunk_index = 1, chunk_text = ''second'', char_count = 6, token_count = 1,
              page_numbers = [1], chunk_document_id = Some ''d'', chunk_type = ''summary'',
              page_range = ''1-1''\<rparr>],
          total_chunks = 0, chunk_summaries = [], summaries_completed = 0, final_summary = [],
          status = ''distributing'', error_message = None\<rparr>)
     = Some (Inl (Exception ''rate limit''))
   \<and> status (distribute_chunks
         \<lparr>document_id = ''d'', document_metadata = [],
          large_chunks =
            [\<lparr>chunk_index = 0, chunk_text = ''first'', char_count = 5, token_count = 1,
              page_numbers = [1], chunk_document_id = Some ''d'', chunk_type = ''summary'',
              page_range = ''1-1''\<rparr>,
             \<lparr>chunk_index = 1, chunk_text = ''second'', char_count = 6, token_count = 1,
              page_numbers = [1], chunk_document_id = Some ''d'', chunk_type = ''summary'',
              page_range = ''1-1''\<rparr>],
          total_chunks = 0, chunk_summaries = [], summaries_completed = 0, final_summary = [],
          status = ''distributing'', error_message = None\<rparr>) = ''mapping''
   \<and> error_message (distribute_chunks
         \<lparr>document_id = ''d'', document_metadata = [],
          large_chunks =
            [\<lparr>chunk_index = 0, chunk_text = ''first'', char_count = 5, token_count = 1,
              page_numbers = [1], chunk_document_id = Some ''d'', chunk_type = ''summary'',
              page_range = ''1-1''\<rparr>,
             \<lparr>chunk_index = 1, chunk_text = ''second'', char_count = 6, token_count = 1,
              page_numbers = [1], chunk_document_id = Some ''d'', chunk_type = ''summary'',
              page_range = ''1-1''\<rparr>],
          total_chunks = 0, chunk_summaries = [], summaries_completed = 0, final_summary = [],
          status = ''distributing'', error_message = None\<rparr>) = None"
  by (simp add: map_summarize_def summarize_chunk_async_def gather_def distribute_chunks_def Let_def)

text \<open>
  Claim C3. Let every summarization call of the map stage succeed on a state with \<open>N\<close>
  summary chunks that carry their position as \<^verbatim>\<open>chunk_index\<close> (as the chunker numbers
  them), and let every task complete, in whatever order. Then the map stage returns a
  state whose \<^verbatim>\<open>chunk_summaries\<close> has length \<open>N\<close> and holds, at the index
  \<^verbatim>\<open>chunk_index\<close> of each chunk, the summary of that chunk; \<^verbatim>\<open>summaries_completed\<close> is
  \<open>N\<close>, the status is \<^verbatim>\<open>reducing\<close>, and nothing else of the state changes.
\<close>

theorem map_summarize_order_preserved:
  assumes ok: "\<forall>i<length (large_chunks state).
                 \<exists>s. summarize_chunk_async llm (large_chunks state ! i) (total_chunks state) = Inr s"
    and complete: "{..<length (large_chunks state)} \<subseteq> set order"
    and indexed: "\<forall>i<length (large_chunks state). chunk_index (large_chunks state ! i) = i"
  shows "\<exists>state'. map_summarize llm order state = Some (Inr state')
       \<and> length (chunk_summaries state') = length (large_chunks state)
       \<and> (\<forall>i<length (large_chunks state).
             summarize_chunk_async llm (large_chunks state ! i) (total_chunks state)
               = Inr (chunk_summaries state' ! i))
       \<and> (\<forall>c\<in>set (large_chunks state).
             summarize_chunk_async llm c (total_chunks state)
               = Inr (chunk_summaries state' ! chunk_index c))
       \<and> summaries_completed state' = int (length (large_chunks state))
       \<and> status state' = ''reducing''
       \<and> state' = state\<lparr>chunk_summaries := chunk_summaries state',
                         summaries_completed := summaries_completed state',
                         status := status state'\<rparr>"
proof -
  from map_summarize_all_succeed[OF ok complete] obtain summaries where
    run: "map_summarize llm order state
             = Some (Inr (state\<lparr>chunk_summaries := summaries,
                               summaries_completed := int (length (large_chunks state)),
                               status := ''reducing''\<rparr>))"
    and len: "length summaries = length (large_chunks state)"
    and nth: "\<forall>i<length (large_chunks state).
               summarize_chunk_async llm (large_chunks state ! i) (total_chunks state) = Inr (summaries ! i)"
    by blast
  have by_index: "summarize_chunk_async llm c (total_chunks state) = Inr (summaries ! chunk_index c)"
    if "c \<in> set (large_chunks state)" for c
  proof -
    from that obtain i where i: "i < length (large_chunks state)" "c = large_chunks state ! i"
      by (auto simp: in_set_conv_nth)
    then have "chunk_index c = i" using indexed by simp
    then show ?thesis using nth i by simp
  qed
  let ?s = "state\<lparr>chunk_summaries := summaries,
                  summaries_completed := int (length (large_chunks state)),
                  status := ''reducing''\<rparr>"
  have "map_summarize llm order state = Some (Inr ?s)
       \<and> length (chunk_summaries ?s) = length (large_chunks state)
       \<and> (\<forall>i<length (large_chunks state).
             summarize_chunk_async llm (large_chunks state ! i) (total_chunks state)
               = Inr (chunk_summaries ?s ! i))
       \<and> (\<forall>c\<in>set (large_chunks state).
             summarize_chunk_async llm c (total_chunks state)
               = Inr (chunk_summaries ?s ! chunk_index c))
       \<and> summaries_completed ?s = int (length (large_chunks state))
       \<and> status ?s = ''reducing''
       \<and> ?s = state\<lparr>chunk_summaries := chunk_summaries ?s,
                         summaries_completed := summaries_completed ?s,
                         status := status ?s\<rparr>"
    using run len nth by_index by simp
  then show ?thesis by (rule exI[of _ ?s])
qed

text \<open>
  The theorem at a run of two chunks whose second task completes first.
\<close>

theorem map_summarize_order_preserved_witness:
  "map_summarize (\<lambda>request. Inr (''summary of '' @ section_text request)) [1, 0]
       \<lparr>document_id = ''d'', document_metadata = [],
        large_chunks =
          [\<lparr>chunk_index = 0, chunk_text = ''first'', char_count = 5, token_count = 1,
            page_numbers = [1], chunk_document_id = Some ''d'', chunk_type = ''summary'',
            page_range = ''1-1''\<rparr>,
           \<lparr>chunk_index = 1, chunk_text = ''second'', char_count = 6, token_count = 1,
            page_numbers = [1], chunk_document_id = Some ''d'', chunk_type = ''summary'',
            page_range = ''1-1''\<rparr>],
        total_chunks = 2, chunk_summaries = [], summaries_completed = 0, final_summary = [],
        status = ''mapping'', error_message = None\<rparr>
     = Some (Inr
       \<lparr>document_id = ''d'', document_metadata = [],
        large_chunks =
          [\<lparr>chunk_index = 0, chunk_text = ''first'', char_count = 5, token_count = 1,
            page_numbers = [1], chunk_document_id = Some ''d'', chunk_type = ''summary'',
            page_range = ''1-1''\<rparr>,
           \<lparr>chunk_index = 1, chunk_text = ''second'', char_count = 6, token_count = 1,
            page_numbers = [1], chunk_document_id = Some ''d'', chunk_type = ''summary'',
            page_range = ''1-1''\<rparr>],
        total_chunks = 2, chunk_summaries = [''summary of first'', ''summary of second''],
        summaries_completed = 2, final_summary = [],
        status = ''reducing'', error_message = None\<rparr>)"
proof -
  let ?llm = "(\<lambda>request. Inr (''summary of '' @ section_text request)) :: section_llm"
  let ?c0 = "\<lparr>chunk_index = 0, chunk_text = ''first'', char_count = 5, token_count = 1,
            page_numbers = [1], chunk_document_id = Some ''d'', chunk_type = ''summary'',
            page_range = ''1-1''\<rparr>"
  let ?c1 = "\<lparr>chunk_index = 1, chunk_text = ''second'', char_count = 6, token_count = 1,
            page_numbers = [1], chunk_document_id = Some ''d'', chunk_type = ''summary'',
            page_range = ''1-1''\<rparr>"
  let ?state = "\<lparr>document_id = ''d'', document_metadata = [], large_chunks = [?c0, ?c1],
        total_chunks = 2, chunk_summaries = [], summaries_completed = 0, final_summary = [],
        status = ''mapping'', error_message = None\<rparr>"
  have ok: "\<forall>i<length (large_chunks ?state).
                 \<exists>s. summarize_chunk_async ?llm (large_chunks ?state ! i) (total_chunks ?state) = Inr s"
    by (simp add: summarize_chunk_async_def)
  have complete: "{..<length (large_chunks ?state)} \<subseteq> set [1, 0]"
    by (auto simp: lessThan_def)
  have indexed: "\<forall>i<length (large_chunks ?state). chunk_index (large_chunks ?state ! i) = i"
    by (simp add: less_Suc_eq all_conj_distrib)
  from map_summarize_order_preserved[OF ok complete indexed]
  obtain state' where s: "map_summarize ?llm [1, 0] ?state = Some (Inr state')"
    "length (chunk_summaries state') = length (large_chunks ?state)"
    "\<forall>i<length (large_chunks ?state).
             summarize_chunk_async ?llm (large_chunks ?state ! i) (total_chunks ?state)
               = Inr (chunk_summaries state' ! i)"
    "\<forall>c\<in>set (large_chunks ?state).
             summarize_chunk_async ?llm c (total_chunks ?state)
               = Inr (chunk_summaries state' ! chunk_index c)"
    "summaries_completed state' = int (length (large_chunks ?state))"
    "status state' = ''reducing''"
    "state' = ?state\<lparr>chunk_summaries := chunk_summaries state',
                         summaries_completed := summaries_completed state',
                         status := status state'\<rparr>"
    by blast
  have "chunk_summaries state' ! 0 = ''summary of first''"
    and "chunk_summaries state' ! 1 = ''summary of second''"
    using s(4) by (simp_all add: summarize_chunk_async_def)
  then have "chunk_summaries state' = [''summary of first'', ''summary of second'']"
    using s(2) by (intro nth_equalityI) (auto simp: less_Suc_eq)
  then have "state' = ?state\<lparr>chunk_summaries := [''summary of first'', ''summary of second''],
                         summaries_completed := 2, status := ''reducing''\<rparr>"
    using s(5,6,7) by simp
  then show ?thesis using s(1) by simp
qed

section \<open>Attribution: claims C4 and C7\<close>

text \<open>
  Claim C4. For the segments the splitter gives, attributed in order: the first search
  starts at 0 and no search starts below 0; the search for segment \<open>i\<close> gives either
  \<open>-1\<close>, and then the segment occurs nowhere at or after the cursor, or the first offset
  at or after the cursor at which the segment occurs; the cursor of the next search is
  \<^verbatim>\<open>chunk_start + 1\<close>, whatever the length of the segment; and the page numbers of chunk
  \<open>i\<close>, of either kind, are those of the markers that overlap the range from
  \<^verbatim>\<open>chunk_start\<close> to \<^verbatim>\<open>chunk_start\<close> plus the length of the segment.
\<close>

theorem attribution_cursor_advance:
  assumes cp: "combine_pages pages_data [] [] = (full_text, page_markers)"
    and sp: "split_text chunk_size chunk_overlap full_text = Inr chunks"
    and i: "i < length chunks"
    and cur: "current_position = fst (attribution_trace full_text 0 chunks ! i)"
    and st: "chunk_start = snd (attribution_trace full_text 0 chunks ! i)"
  shows "(i = 0 \<longrightarrow> current_position = 0)
       \<and> 0 \<le> current_position
       \<and> chunk_start = py_find full_text (chunks ! i) current_position
       \<and> ((chunk_start = - 1
              \<and> (\<forall>j. current_position \<le> int j \<longrightarrow> \<not> occurs_at full_text (chunks ! i) j))
          \<or> (current_position \<le> chunk_start
              \<and> occurs_at full_text (chunks ! i) (nat chunk_start)
              \<and> (\<forall>j. current_position \<le> int j \<and> int j < chunk_start
                     \<longrightarrow> \<not> occurs_at full_text (chunks ! i) j)))
       \<and> (Suc i < length chunks \<longrightarrow>
             fst (attribution_trace full_text 0 chunks ! Suc i) = chunk_start + 1)
       \<and> (\<forall>cds. create_rag_chunks split_text tk pages_data chunk_size chunk_overlap doc_id = Inr cds \<longrightarrow>
             length cds = length chunks \<and> chunk_text (cds ! i) = chunks ! i
             \<and> page_numbers (cds ! i)
                 = spanned_pages page_markers chunk_start (chunk_start + int (length (chunks ! i))))
       \<and> (\<forall>cds. create_summary_chunks split_text tk pages_data chunk_size chunk_overlap doc_id = Inr cds \<longrightarrow>
             length cds = length chunks \<and> chunk_text (cds ! i) = chunks ! i
             \<and> page_numbers (cds ! i)
                 = spanned_pages page_markers chunk_start (chunk_start + int (length (chunks ! i))))"
proof -
  have ne: "chunks \<noteq> []" using i by auto
  have first: "i = 0 \<longrightarrow> current_position = 0"
    using cur attribution_trace_first[OF ne, of full_text 0] by simp
  have nonneg: "0 \<le> current_position"
    unfolding cur by (rule attribution_trace_nonneg) (use i in simp_all)
  have search: "chunk_start = py_find full_text (chunks ! i) current_position"
    unfolding cur st by (rule attribution_trace_search[OF i])
  have found: "(chunk_start = - 1
              \<and> (\<forall>j. current_position \<le> int j \<longrightarrow> \<not> occurs_at full_text (chunks ! i) j))
          \<or> (current_position \<le> chunk_start
              \<and> occurs_at full_text (chunks ! i) (nat chunk_start)
              \<and> (\<forall>j. current_position \<le> int j \<and> int j < chunk_start
                     \<longrightarrow> \<not> occurs_at full_text (chunks ! i) j))"
    using py_find_spec[OF nonneg, of full_text "chunks ! i"] unfolding search by auto
  have nxt: "Suc i < length chunks \<longrightarrow>
             fst (attribution_trace full_text 0 chunks ! Suc i) = chunk_start + 1"
    unfolding st using attribution_trace_next by blast
  have rag: "length cds = length chunks \<and> chunk_text (cds ! i) = chunks ! i
             \<and> page_numbers (cds ! i)
                 = spanned_pages page_markers chunk_start (chunk_start + int (length (chunks ! i)))"
    if "create_rag_chunks split_text tk pages_data chunk_size chunk_overlap doc_id = Inr cds" for cds
  proof -
    have "rag_chunk_loop tk full_text page_markers doc_id 0 0 chunks = Inr cds"
      using that create_rag_chunks_unfold[of pages_data full_text page_markers split_text
          chunk_size chunk_overlap chunks tk doc_id] cp sp by simp
    from rag_chunk_loop_nth[OF this] i show ?thesis unfolding st by simp
  qed
  have summ: "length cds = length chunks \<and> chunk_text (cds ! i) = chunks ! i
             \<and> page_numbers (cds ! i)
                 = spanned_pages page_markers chunk_start (chunk_start + int (length (chunks ! i)))"
    if "create_summary_chunks split_text tk pages_data chunk_size chunk_overlap doc_id = Inr cds" for cds
  proof -
    have "summary_chunk_loop tk full_text page_markers doc_id 0 0 chunks = Inr cds"
      using that create_summary_chunks_unfold[of pages_data full_text page_markers split_text
          chunk_size chunk_overlap chunks tk doc_id] cp sp by simp
    from summary_chunk_loop_nth[OF this] i show ?thesis unfolding st by simp
  qed
  show ?thesis using first nonneg search found nxt rag summ by blast
qed

text \<open>
  The theorem at two segments that overlap in the buffer: the second one starts at offset
  2, before the end of the first, and is found because the cursor went on to 1 only.
\<close>

theorem attribution_cursor_advance_witness:
  "combine_pages [\<lparr>page_number = 1, page_text = ''abcabc''\<rparr>] [] []
     = (''abcabc'' @ [CHR 0x0A, CHR 0x0A], [\<lparr>marker_page_number = 1, start_pos = 0, end_pos = 8\<rparr>])
   \<and> attribution_trace (''abcabc'' @ [CHR 0x0A, CHR 0x0A]) 0 [''abca'', ''cabc''] = [(0, 0), (1, 2)]
   \<and> occurs_at (''abcabc'' @ [CHR 0x0A, CHR 0x0A]) ''abca'' 0
   \<and> fst (attribution_trace (''abcabc'' @ [CHR 0x0A, CHR 0x0A]) 0 [''abca'', ''cabc''] ! Suc 0) = 0 + 1"
proof -
  let ?ft = "''abcabc'' @ [CHR 0x0A, CHR 0x0A]"
  let ?split = "(\<lambda>size overlap buffer. Inr [''abca'', ''cabc'']) :: splitter"
  have cp: "combine_pages [\<lparr>page_number = 1, page_text = ''abcabc''\<rparr>] [] []
     = (?ft, [\<lparr>marker_page_number = 1, start_pos = 0, end_pos = 8\<rparr>])"
    by (simp add: Let_def)
  have sp: "?split 1000 100 ?ft = Inr [''abca'', ''cabc'']" by simp
  have tr: "attribution_trace ?ft 0 [''abca'', ''cabc''] = [(0, 0), (1, 2)]"
    by (simp add: Let_def py_find_def)
  have i: "0 < length [''abca'', ''cabc'']" by simp
  have cur: "0 = fst (attribution_trace ?ft 0 [''abca'', ''cabc''] ! 0)" using tr by simp
  have st: "0 = snd (attribution_trace ?ft 0 [''abca'', ''cabc''] ! 0)" using tr by simp
  from attribution_cursor_advance[of "[\<lparr>page_number = 1, page_text = ''abcabc''\<rparr>]" ?ft
      "[\<lparr>marker_page_number = 1, start_pos = 0, end_pos = 8\<rparr>]" ?split 1000 100
      "[''abca'', ''cabc'']" 0 0 0 "\<lambda>model. Inr (\<lambda>txt. Inr (map of_char txt))" None,
      OF cp sp i cur st]
  have "occurs_at ?ft ''abca'' 0
      \<and> fst (attribution_trace ?ft 0 [''abca'', ''cabc''] ! Suc 0) = 0 + 1"
    by simp
  then show ?thesis using cp tr by simp
qed

text \<open>
  Claim C7 asks for an empty \<^verbatim>\<open>page_numbers\<close> when a segment is not found. The loop
  reads \<^verbatim>\<open>page_numbers\<close> with \<^verbatim>\<open>if page_numbers else\<close>, so an empty list degrades as the
  claim says and the pass goes on; but the \<open>-1\<close> of a failed search is used as an offset
  without a test. A missing segment of three characters gets the range from \<open>-1\<close> to
  2, which overlaps the first marker: the chunk is attributed to page 1.
\<close>

theorem not_found_segment_attributed:
  "py_find (''ab'' @ [CHR 0x0A, CHR 0x0A]) ''xyz'' 0 = - 1
   \<and> create_rag_chunks
       (\<lambda>size overlap buffer. Inr [''xyz''])
       (\<lambda>model. Inr (\<lambda>txt. Inr (map of_char txt)))
       [\<lparr>page_number = 1, page_text = ''ab''\<rparr>] 1000 100 None
     = Inr [\<lparr>chunk_index = 0, chunk_text = ''xyz'', char_count = 3,
             token_count = 3, page_numbers = [1], chunk_document_id = None,
             chunk_type = ''rag'', rag_page_number = Some 1\<rparr>]
   \<and> create_summary_chunks
       (\<lambda>size overlap buffer. Inr [''xyz''])
       (\<lambda>model. Inr (\<lambda>txt. Inr (map of_char txt)))
       [\<lparr>page_number = 1, page_text = ''ab''\<rparr>] 15000 500 None
     = Inr [\<lparr>chunk_index = 0, chunk_text = ''xyz'', char_count = 3,
             token_count = 3, page_numbers = [1], chunk_document_id = None,
             chunk_type = ''summary'', page_range = ''1-1''\<rparr>]"
  by (simp add: create_rag_chunks_def create_summary_chunks_def count_tokens_def Let_def py_find_def
      spanned_pages_def show_int_def show_nat.simps)

section \<open>Page markers: claims C5 and C6\<close>

text \<open>
  Claim C5, as the code has it. The markers keep the order of the input pages, so for a
  non-empty page sequence given in ascending order of page number they are ordered by
  page number; the end offset of each marker is the start offset of the next; the first
  marker starts at 0 and the last ends at the length of the buffer; and every offset of
  the buffer lies in the range of exactly one marker.
\<close>

theorem page_markers_contiguous_cover:
  assumes ne: "pages_data \<noteq> []"
    and ordered: "sorted (map page_number pages_data)"
    and cp: "combine_pages pages_data [] [] = (full_text, page_markers)"
  shows "map marker_page_number page_markers = map page_number pages_data
       \<and> sorted (map marker_page_number page_markers)
       \<and> (\<forall>i. Suc i < length page_markers \<longrightarrow>
              end_pos (page_markers ! i) = start_pos (page_markers ! Suc i))
       \<and> start_pos (hd page_markers) = 0
       \<and> end_pos (last page_markers) = length full_text
       \<and> (\<forall>k<length full_text.
              \<exists>!i. i < length page_markers
                 \<and> start_pos (page_markers ! i) \<le> k \<and> k < end_pos (page_markers ! i))"
proof (intro conjI allI impI)
  show pn: "map marker_page_number page_markers = map page_number pages_data"
    using cp by (rule markers_page_numbers)
  show "sorted (map marker_page_number page_markers)" unfolding pn by (rule ordered)
  show "start_pos (hd page_markers) = 0" using cp ne by (rule markers_ends(1))
  show "end_pos (last page_markers) = length full_text" using cp ne by (rule markers_ends(2))
next
  fix i assume "Suc i < length page_markers"
  with cp show "end_pos (page_markers ! i) = start_pos (page_markers ! Suc i)"
    by (rule markers_contiguous)
next
  fix k assume "k < length full_text"
  with cp show "\<exists>!i. i < length page_markers
                 \<and> start_pos (page_markers ! i) \<le> k \<and> k < end_pos (page_markers ! i)"
    by (rule markers_cover_unique)
qed

text \<open>
  The theorem at two pages.
\<close>

theorem page_markers_contiguous_cover_witness:
  "combine_pages [\<lparr>page_number = 1, page_text = ''ab''\<rparr>, \<lparr>page_number = 2, page_text = ''c''\<rparr>] [] []
     = (''ab'' @ [CHR 0x0A, CHR 0x0A] @ ''c'' @ [CHR 0x0A, CHR 0x0A],
        [\<lparr>marker_page_number = 1, start_pos = 0, end_pos = 4\<rparr>,
         \<lparr>marker_page_number = 2, start_pos = 4, end_pos = 7\<rparr>])
   \<and> sorted (map marker_page_number
        [\<lparr>marker_page_number = 1, start_pos = 0, end_pos = 4\<rparr>,
         \<lparr>marker_page_number = 2, start_pos = 4, end_pos = 7\<rparr>])
   \<and> end_pos (last [\<lparr>marker_page_number = 1, start_pos = 0, end_pos = 4\<rparr>,
         \<lparr>marker_page_number = 2, start_pos = 4, end_pos = 7\<rparr>])
       = length (''ab'' @ [CHR 0x0A, CHR 0x0A] @ ''c'' @ [CHR 0x0A, CHR 0x0A])"
proof -
  let ?pages = "[\<lparr>page_number = 1, page_text = ''ab''\<rparr>, \<lparr>page_number = 2, page_text = ''c''\<rparr>]"
  have ne: "?pages \<noteq> []" by simp
  have ordered: "sorted (map page_number ?pages)" by simp
  have cp: "combine_pages ?pages [] []
     = (''ab'' @ [CHR 0x0A, CHR 0x0A] @ ''c'' @ [CHR 0x0A, CHR 0x0A],
        [\<lparr>marker_page_number = 1, start_pos = 0, end_pos = 4\<rparr>,
         \<lparr>marker_page_number = 2, start_pos = 4, end_pos = 7\<rparr>])"
    by (simp add: Let_def)
  from page_markers_contiguous_cover[OF ne ordered cp] cp show ?thesis by blast
qed

text \<open>
  Claim C5 as stated, for every non-empty page sequence, fails on pages given out of
  order: the pages are not sorted, and the markers follow them.
\<close>

theorem page_markers_order_counterexample:
  "[\<lparr>page_number = 2, page_text = ''a''\<rparr>, \<lparr>page_number = 1, page_text = ''b''\<rparr>] \<noteq> []
   \<and> snd (combine_pages [\<lparr>page_number = 2, page_text = ''a''\<rparr>, \<lparr>page_number = 1, page_text = ''b''\<rparr>] [] [])
       = [\<lparr>marker_page_number = 2, start_pos = 0, end_pos = 3\<rparr>,
          \<lparr>marker_page_number = 1, start_pos = 3, end_pos = 6\<rparr>]
   \<and> \<not> sorted (map marker_page_number
         (snd (combine_pages [\<lparr>page_number = 2, page_text = ''a''\<rparr>, \<lparr>page_number = 1, page_text = ''b''\<rparr>] [] [])))"
  by (simp add: Let_def)

text \<open>
  Claim C6, as the code has it. The range of a page's marker is the page's text together
  with the separator that follows it: the end offset is the start offset plus the length
  of the text plus 2, and the buffer between the two offsets is the text followed by two
  line feeds.
\<close>

theorem marker_range_includes_separator:
  assumes cp: "combine_pages pages_data [] [] = (full_text, page_markers)"
    and i: "i < length pages_data"
  shows "marker_page_number (page_markers ! i) = page_number (pages_data ! i)
       \<and> end_pos (page_markers ! i)
           = start_pos (page_markers ! i) + length (page_text (pages_data ! i)) + 2
       \<and> take (end_pos (page_markers ! i) - start_pos (page_markers ! i))
              (drop (start_pos (page_markers ! i)) full_text)
           = page_text (pages_data ! i) @ [CHR 0x0A, CHR 0x0A]"
  using combine_pages_marker(1,3)[OF cp i] marker_slice[OF cp i] by simp

text \<open>
  The theorem at one page of two characters.
\<close>

theorem marker_range_includes_separator_witness:
  "combine_pages [\<lparr>page_number = 1, page_text = ''ab''\<rparr>] [] []
     = (''ab'' @ [CHR 0x0A, CHR 0x0A], [\<lparr>marker_page_number = 1, start_pos = 0, end_pos = 4\<rparr>])
   \<and> end_pos ([\<lparr>marker_page_number = 1, start_pos = 0, end_pos = 4\<rparr>] ! 0)
       = start_pos ([\<lparr>marker_page_number = 1, start_pos = 0, end_pos = 4\<rparr>] ! 0)
           + length (page_text ([\<lparr>page_number = 1, page_text = ''ab''\<rparr>] ! 0)) + 2"
proof -
  have cp: "combine_pages [\<lparr>page_number = 1, page_text = ''ab''\<rparr>] [] []
     = (''ab'' @ [CHR 0x0A, CHR 0x0A], [\<lparr>marker_page_number = 1, start_pos = 0, end_pos = 4\<rparr>])"
    by (simp add: Let_def)
  have i: "0 < length [\<lparr>page_number = 1, page_text = ''ab''\<rparr>]" by simp
  from marker_range_includes_separator[OF cp i] cp show ?thesis by blast
qed

text \<open>
  Claim C6 as stated fails on that page: its marker ends at 4, not at 2.
\<close>

theorem marker_range_counterexample:
  "snd (combine_pages [\<lparr>page_number = 1, page_text = ''ab''\<rparr>] [] [])
     = [\<lparr>marker_page_number = 1, start_pos = 0, end_pos = 4\<rparr>]
   \<and> end_pos (snd (combine_pages [\<lparr>page_number = 1, page_text = ''ab''\<rparr>] [] []) ! 0)
       \<noteq> start_pos (snd (combine_pages [\<lparr>page_number = 1, page_text = ''ab''\<rparr>] [] []) ! 0)
           + length (page_text \<lparr>page_number = 1, page_text = ''ab''\<rparr>)"
  by (simp add: Let_def)

section \<open>Chunk fields: claims C8 and C9\<close>

text \<open>
  Claim C8, as the code has it. For every summary chunk, \<^verbatim>\<open>page_range\<close> is the least
  and the greatest of its \<^verbatim>\<open>page_numbers\<close>, printed with a hyphen between them, when the
  list is non-empty, and the string \<^verbatim>\<open>Unknown\<close>, with a capital letter, when it is
  empty.
\<close>

theorem summary_page_range:
  assumes run: "create_summary_chunks split_text tk pages_data chunk_size chunk_overlap doc_id = Inr cds"
    and c: "c \<in> set cds"
  shows "page_range c =
           (if page_numbers c = [] then ''Unknown''
            else show_int (Min (set (page_numbers c))) @ ''-'' @ show_int (Max (set (page_numbers c))))"
proof -
  from run obtain full_text page_markers chunks where
    loop: "summary_chunk_loop tk full_text page_markers doc_id 0 0 chunks = Inr cds"
    by (rule create_summary_chunks_Inr)
  from c obtain i where i: "i < length cds" "c = cds ! i" by (auto simp: in_set_conv_nth)
  from summary_chunk_loop_nth[OF loop] i
  have pr: "page_range c = (case page_numbers c of
               [] \<Rightarrow> ''Unknown''
             | p # ps \<Rightarrow> show_int (fold min ps p) @ ''-'' @ show_int (fold max ps p))"
    by simp
  show ?thesis
  proof (cases "page_numbers c")
    case Nil
    then show ?thesis using pr by simp
  next
    case (Cons p ps)
    then show ?thesis using pr by (simp only: fold_min_Min fold_max_Max list.case list.distinct if_False)
  qed
qed

text \<open>
  The theorem at a chunk that spans pages 7 and 12.
\<close>

theorem summary_page_range_witness:
  "create_summary_chunks
       (\<lambda>size overlap buffer. Inr [''b'' @ [CHR 0x0A, CHR 0x0A] @ ''cd''])
       (\<lambda>model. Inr (\<lambda>txt. Inr (map of_char txt)))
       [\<lparr>page_number = 7, page_text = ''ab''\<rparr>, \<lparr>page_number = 12, page_text = ''cd''\<rparr>] 15000 500 None
     = Inr [\<lparr>chunk_index = 0, chunk_text = ''b'' @ [CHR 0x0A, CHR 0x0A] @ ''cd'', char_count = 5,
             token_count = 5, page_numbers = [7, 12], chunk_document_id = None,
             chunk_type = ''summary'', page_range = ''7-12''\<rparr>]
   \<and> ''7-12'' = show_int (Min (set [7, 12])) @ ''-'' @ show_int (Max (set [7, 12]))"
proof -
  let ?c = "\<lparr>chunk_index = 0, chunk_text = ''b'' @ [CHR 0x0A, CHR 0x0A] @ ''cd'', char_count = 5,
             token_count = 5, page_numbers = [7, 12], chunk_document_id = None,
             chunk_type = ''summary'', page_range = ''7-12''\<rparr>"
  have run: "create_summary_chunks
       (\<lambda>size overlap buffer. Inr [''b'' @ [CHR 0x0A, CHR 0x0A] @ ''cd''])
       (\<lambda>model. Inr (\<lambda>txt. Inr (map of_char txt)))
       [\<lparr>page_number = 7, page_text = ''ab''\<rparr>, \<lparr>page_number = 12, page_text = ''cd''\<rparr>] 15000 500 None
     = Inr [?c]"
    by (simp add: create_summary_chunks_def count_tokens_def Let_def py_find_def spanned_pages_def
        show_int_def show_nat.simps)
  have "?c \<in> set [?c]" by simp
  from summary_page_range[OF run this] have "page_range ?c
     = show_int (Min (set [7, 12])) @ ''-'' @ show_int (Max (set [7, 12]))"
    by simp
  then show ?thesis using run by simp
qed

text \<open>
  Claim C8 as stated fails on a chunk without pages: its \<^verbatim>\<open>page_range\<close> is not the
  string \<^verbatim>\<open>unknown\<close>.
\<close>

theorem page_range_unknown_counterexample:
  "create_summary_chunks
       (\<lambda>size overlap buffer. Inr [''x''])
       (\<lambda>model. Inr (\<lambda>txt. Inr (map of_char txt)))
       [\<lparr>page_number = 1, page_text = ''ab''\<rparr>] 15000 500 None
     = Inr [\<lparr>chunk_index = 0, chunk_text = ''x'', char_count = 1,
             token_count = 1, page_numbers = [], chunk_document_id = None,
             chunk_type = ''summary'', page_range = ''Unknown''\<rparr>]
   \<and> ''Unknown'' \<noteq> ''unknown''"
  by (simp add: create_summary_chunks_def count_tokens_def Let_def py_find_def spanned_pages_def)

text \<open>
  Claim C9, as the code has it. A failure of the token count is not absorbed: when the
  count fails for the text of some segment, both chunking calls raise the failure of a
  segment and return no chunk at all.
\<close>

theorem token_count_failure_propagates:
  assumes cp: "combine_pages pages_data [] [] = (full_text, page_markers)"
    and sp: "split_text chunk_size chunk_overlap full_text = Inr chunks"
    and fail: "\<exists>c\<in>set chunks. isl (count_tokens tk c ''gpt-4'')"
  shows "(\<exists>c\<in>set chunks. \<exists>e. count_tokens tk c ''gpt-4'' = Inl e
            \<and> create_rag_chunks split_text tk pages_data chunk_size chunk_overlap doc_id = Inl e)
       \<and> (\<exists>c\<in>set chunks. \<exists>e. count_tokens tk c ''gpt-4'' = Inl e
            \<and> create_summary_chunks split_text tk pages_data chunk_size chunk_overlap doc_id = Inl e)"
proof -
  have r: "create_rag_chunks split_text tk pages_data chunk_size chunk_overlap doc_id
             = rag_chunk_loop tk full_text page_markers doc_id 0 0 chunks"
    using cp sp by (rule create_rag_chunks_unfold)
  have s: "create_summary_chunks split_text tk pages_data chunk_size chunk_overlap doc_id
             = summary_chunk_loop tk full_text page_markers doc_id 0 0 chunks"
    using cp sp by (rule create_summary_chunks_unfold)
  show ?thesis
    unfolding r s
    using rag_chunk_loop_token_failure[OF fail] summary_chunk_loop_token_failure[OF fail]
    by blast
qed

text \<open>
  The theorem with a tokenizer that has no encoding for the model.
\<close>

theorem token_count_failure_propagates_witness:
  "create_rag_chunks (\<lambda>size overlap buffer. Inr [''ab'']) (\<lambda>model. Inl (Exception ''no encoding''))
       [\<lparr>page_number = 1, page_text = ''ab''\<rparr>] 1000 100 None
     = Inl (Exception ''no encoding'')
   \<and> create_summary_chunks (\<lambda>size overlap buffer. Inr [''ab'']) (\<lambda>model. Inl (Exception ''no encoding''))
       [\<lparr>page_number = 1, page_text = ''ab''\<rparr>] 15000 500 None
     = Inl (Exception ''no encoding'')"
proof -
  let ?tk = "(\<lambda>model. Inl (Exception ''no encoding'')) :: tiktoken"
  have ct: "count_tokens ?tk c ''gpt-4'' = Inl (Exception ''no encoding'')" for c
    by (simp add: count_tokens_def)
  have cp: "combine_pages [\<lparr>page_number = 1, page_text = ''ab''\<rparr>] [] []
      = (''ab'' @ [CHR 0x0A, CHR 0x0A], [\<lparr>marker_page_number = 1, start_pos = 0, end_pos = 4\<rparr>])"
    by (simp add: Let_def)
  have fail: "\<exists>c\<in>set [''ab'']. isl (count_tokens ?tk c ''gpt-4'')" by (simp add: ct)
  have sp: "(\<lambda>size overlap buffer. Inr [''ab'']) s (ov::int) (''ab'' @ [CHR 0x0A, CHR 0x0A]) = (Inr [''ab''] :: error + string list)" for s :: int and ov
    by simp
  from token_count_failure_propagates[of "[\<lparr>page_number = 1, page_text = ''ab''\<rparr>]" _ _
      "\<lambda>size overlap buffer. Inr [''ab'']" 1000 100 "[''ab'']" ?tk None, OF cp sp fail]
    token_count_failure_propagates[of "[\<lparr>page_number = 1, page_text = ''ab''\<rparr>]" _ _
      "\<lambda>size overlap buffer. Inr [''ab'']" 15000 500 "[''ab'']" ?tk None, OF cp sp fail]
  show ?thesis by (auto simp: ct)
qed

text \<open>
  Claim C9 as stated fails when the count fails for the second of two segments: the call
  returns the failure, and the first chunk is not produced either.
\<close>

theorem token_count_sentinel_counterexample:
  "count_tokens
       (\<lambda>model. Inr (\<lambda>txt. if txt = ''cd'' then Inl (Exception ''encode failed'')
                                 else Inr (map of_char txt)))
       ''cd'' ''gpt-4''
     = Inl (Exception ''encode failed'')
   \<and> create_rag_chunks (\<lambda>size overlap buffer. Inr [''ab'', ''cd''])
       (\<lambda>model. Inr (\<lambda>txt. if txt = ''cd'' then Inl (Exception ''encode failed'')
                                 else Inr (map of_char txt)))
       [\<lparr>page_number = 1, page_text = ''ab cd''\<rparr>] 1000 100 None
     = Inl (Exception ''encode failed'')"
  by (simp add: create_rag_chunks_def count_tokens_def Let_def)

end
